theory Spec2Isabelle
  imports Main "HOL-Library.Char_ord" "HOL-Library.List_Lexorder"
begin

section \<open>Values and exceptions of the Python program\<close>

text \<open>
  The two functions of \<^verbatim>\<open>get_images.py\<close> check the dynamic type of their arguments, so
  an argument is a tagged Python value. \<open>PBool\<close> is kept apart from \<open>PInt\<close> because
  \<^verbatim>\<open>isinstance(True, int)\<close> holds in Python. \<open>PList\<close> stands for the sized iterables
  (\<^verbatim>\<open>iter\<close> and \<^verbatim>\<open>len\<close> succeed), \<open>PObj\<close> for every other object, which is not
  iterable (\<^verbatim>\<open>None\<close>, a float).
\<close>

datatype pyval =
    PStr string
  | PInt int
  | PBool bool
  | PPath string
  | PList "pyval list"
  | PObj

fun is_str :: "pyval \<Rightarrow> bool" where
  "is_str (PStr _) = True"
| "is_str _ = False"

fun is_int :: "pyval \<Rightarrow> bool" where
  "is_int (PInt _) = True"
| "is_int (PBool _) = True"
| "is_int _ = False"

fun is_path :: "pyval \<Rightarrow> bool" where
  "is_path (PPath _) = True"
| "is_path _ = False"

text \<open>
  An exception is seen by the program in two ways only: \<^verbatim>\<open>except TypeError\<close> asks whether
  it is an instance of \<^verbatim>\<open>TypeError\<close>, and \<^verbatim>\<open>e.__class__.__name__\<close> reads the name of its
  class. Only subclasses of \<^verbatim>\<open>Exception\<close> are modelled.
\<close>

datatype exn = Exn (is_TypeError: bool) (ename: string)

abbreviation TypeError :: exn where
  "TypeError \<equiv> Exn True ''TypeError''"

abbreviation ValueError :: exn where
  "ValueError \<equiv> Exn False ''ValueError''"

abbreviation AttributeError :: exn where
  "AttributeError \<equiv> Exn False ''AttributeError''"

section \<open>The archive, the payloads and the file system\<close>

text \<open>
  A row of the table of a search result: the columns \<^verbatim>\<open>targetid\<close> and
  \<^verbatim>\<open>observation\<close> are the two the program reads.
\<close>

record row =
  targetid :: string
  observation :: string

text \<open>
  A target pixel file as far as the program touches it: \<open>sector\<close> is the text that
  \<^verbatim>\<open>tpf.sector\<close> formats to inside an f-string, \<open>ticid\<close> the header card \<^verbatim>\<open>TICID\<close>.
\<close>

record tpf =
  sector :: string
  ticid :: "string option"

text \<open>
  Every line the program prints, with the values its f-string interpolates (the text of
  an exception is left out, its class name is kept).
\<close>

datatype msg =
    Query_skipped string int
  | Query_attempt int string string
  | No_images string
  | Multiple_ids_returned "string list"
  | Different_id_returned "string list"
  | No_fits_saved
  | Skipped_sectors string "string list"
  | No_new_images string
  | Download_skipped string int
  | Download_problem string string
  | Download_attempt int string string
  | Save_skipped string int
  | Save_attempt int string string
  | Saved string
  | Working_on nat nat pyval
  | Clean_cache_hint

text \<open>
  The state the program acts on: the regular files (path to content) and directories of
  the file system, the printed lines, and how often the archive was searched, a download
  was requested, a write was attempted and the program slept for a second.
  \<open>mkdir_raises p\<close> is what \<^verbatim>\<open>mkdir\<close> of the path \<open>p\<close> raises in this file system
  (\<^verbatim>\<open>FileNotFoundError\<close> when the parent is missing: line 57 does not create parents),
  \<open>None\<close> when it creates the directory. \<open>caught\<close> lists, in order, the exceptions
  that reached an \<^verbatim>\<open>except\<close> clause.
\<close>

record world =
  files :: "string \<rightharpoonup> tpf"
  dirs :: "string set"
  mkdir_raises :: "string \<Rightarrow> exn option"
  log :: "msg list"
  caught :: "exn list"
  n_search :: nat
  n_fetch :: nat
  n_write :: nat
  n_sleep :: nat

text \<open>
  The collaborators, as scripts: the answer to the \<open>n\<close>-th call (counted from 0 over the
  whole run) together with the call's arguments. \<open>Inl e\<close> and \<open>Some e\<close> mean the call
  raised \<open>e\<close>.
\<close>

record env =
  search_tesscut :: "nat \<Rightarrow> string \<Rightarrow> exn + row list"
  download_all :: "nat \<Rightarrow> row list \<Rightarrow> pyval \<Rightarrow> exn + tpf list"
  to_fits :: "nat \<Rightarrow> string \<Rightarrow> bool \<Rightarrow> exn option"

definition print :: "msg \<Rightarrow> world \<Rightarrow> world" where
  "print m w = w\<lparr>log := log w @ [m]\<rparr>"

definition path_exists :: "world \<Rightarrow> string \<Rightarrow> bool" where
  "path_exists w p \<longleftrightarrow> p \<in> dom (files w) \<or> p \<in> dirs w"

definition joinpath :: "string \<Rightarrow> string \<Rightarrow> string" where
  "joinpath d name = d @ ''/'' @ name"

definition fits_name :: "string \<Rightarrow> string \<Rightarrow> string" where
  "fits_name t s = ''tess'' @ t @ ''_sec'' @ s @ ''.fits''"

section \<open>Pattern matching\<close>

definition is_digit :: "char \<Rightarrow> bool" where
  "is_digit c \<longleftrightarrow> c \<in> set ''0123456789''"

text \<open>
  \<^verbatim>\<open>re.match(pre + '(\d+)', s)\<close> for a literal prefix \<open>pre\<close>: the match is anchored at the
  start, the group is the longest run of digits after the prefix and must not be empty.
  \<open>None\<close> is Python's \<^verbatim>\<open>None\<close>, on which \<^verbatim>\<open>.group(1)\<close> raises \<^verbatim>\<open>AttributeError\<close>.
\<close>

definition re_match_group1 :: "string \<Rightarrow> string \<Rightarrow> string option" where
  "re_match_group1 pre s =
     (if take (length pre) s = pre \<and> takeWhile is_digit (drop (length pre) s) \<noteq> []
      then Some (takeWhile is_digit (drop (length pre) s))
      else None)"

definition np_unique :: "string list \<Rightarrow> string list" where
  "np_unique xs = sort (remdups xs)"

section \<open>download_tesscuts_single\<close>

record args =
  outputdir :: pyval
  imsize :: pyval
  overwrite :: bool
  max_tries :: int
  max_counter :: int
  max_tries_MASTquery :: int

text \<open>The \<^verbatim>\<open>return\<close> statement a call left through (all of them return \<^verbatim>\<open>None\<close>).\<close>

datatype exit =
    Query_retries_exceeded
  | No_images_found
  | Multiple_ids
  | Different_id
  | Nothing_new
  | Download_retries_exceeded
  | Download_rejected
  | Save_retries_exceeded
  | All_saved

text \<open>
  Lines 43 to 57: the type checks and the output directory. The three \<^verbatim>\<open>TypeError\<close>s
  come first, in the order of the source, then the \<^verbatim>\<open>ValueError\<close> for an output
  directory that exists and is not a directory, then \<^verbatim>\<open>mkdir\<close>, whose exception
  leaves the function: line 57 is outside every \<^verbatim>\<open>try\<close>. The queries \<^verbatim>\<open>exists\<close> and
  \<^verbatim>\<open>is_dir\<close> are taken to answer.
\<close>

definition check_args :: "pyval \<Rightarrow> args \<Rightarrow> world \<Rightarrow> exn + (string \<times> string \<times> world)" where
  "check_args TIC a w =
     (case TIC of
        PStr t \<Rightarrow>
          (case outputdir a of
             PPath d \<Rightarrow>
               if \<not> is_int (imsize a) then Inl TypeError
               else if path_exists w d then
                 (if d \<notin> dirs w then Inl ValueError else Inr (t, d, w))
               else
                 (case mkdir_raises w d of
                    Some e \<Rightarrow> Inl e
                  | None \<Rightarrow> Inr (t, d, w\<lparr>dirs := insert d (dirs w)\<rparr>))
           | _ \<Rightarrow> Inl TypeError)
      | _ \<Rightarrow> Inl TypeError)"

text \<open>Lines 60 to 73: the search loop, entered with \<open>tries_query = 1\<close>.\<close>

function query_loop :: "env \<Rightarrow> string \<Rightarrow> int \<Rightarrow> int \<Rightarrow> world \<Rightarrow> row list option \<times> world" where
  "query_loop E t cap tries_query w =
     (if tries_query > cap then (None, print (Query_skipped t cap) w)
      else
        (case search_tesscut E (n_search w) (''TIC '' @ t) of
           Inr tesscuts \<Rightarrow> (Some tesscuts, w\<lparr>n_search := n_search w + 1\<rparr>)
         | Inl e \<Rightarrow>
             query_loop E t cap (tries_query + 1)
               (print (Query_attempt tries_query t (ename e)) (w\<lparr>n_search := n_search w + 1, caught := caught w @ [e]\<rparr>))))"
  by pat_completeness auto
termination
  by (relation "measure (\<lambda>(E, t, cap, tries_query, w). nat (cap + 1 - tries_query))") auto

declare query_loop.simps [simp del]

text \<open>
  Lines 97 to 106: the rows whose output file is not there yet. \<open>None\<close> is the
  \<^verbatim>\<open>return\<close> of line 106.
\<close>

definition skip_downloaded ::
  "string \<Rightarrow> string list \<Rightarrow> string list \<Rightarrow> row list \<Rightarrow> world \<Rightarrow> row list option \<times> world" where
  "skip_downloaded t sectors outputnames tesscuts w =
     (let fs = map (path_exists w) outputnames;
          ind = map fst (filter snd (zip sectors fs))
      in if length ind > 0 then
           (let w1 = print (Skipped_sectors t ind) w;
                tesscuts1 = map fst (filter (\<lambda>(r, f). \<not> f) (zip tesscuts fs))
            in if length tesscuts1 = 0 then (None, print (No_new_images t) w1)
               else (Some tesscuts1, w1))
         else (Some tesscuts, w))"

text \<open>
  Lines 109 to 129: the download loop, entered with \<open>tries = 1\<close>. \<open>Inl x\<close> is the
  \<^verbatim>\<open>return\<close> taken, \<open>Inr tpfs\<close> the \<^verbatim>\<open>break\<close>.
\<close>

function fetch_loop ::
  "env \<Rightarrow> string \<Rightarrow> pyval \<Rightarrow> int \<Rightarrow> row list \<Rightarrow> int \<Rightarrow> world \<Rightarrow> (exit + tpf list) \<times> world" where
  "fetch_loop E t cutout_size cap tesscuts tries w =
     (if tries > cap then (Inl Download_retries_exceeded, print (Download_skipped t cap) w)
      else
        (case download_all E (n_fetch w) tesscuts cutout_size of
           Inr tpfs \<Rightarrow> (Inr tpfs, w\<lparr>n_fetch := n_fetch w + 1\<rparr>)
         | Inl e \<Rightarrow>
             if is_TypeError e \<or> ename e = ''SearchError''
             then (Inl Download_rejected,
                   print (Download_problem t (ename e))
                     (w\<lparr>n_fetch := n_fetch w + 1, caught := caught w @ [e]\<rparr>))
             else fetch_loop E t cutout_size cap tesscuts (tries + 1)
                    (print (Download_attempt tries t (ename e)) (w\<lparr>n_fetch := n_fetch w + 1, caught := caught w @ [e]\<rparr>))))"
  by pat_completeness auto
termination
  by (relation "measure (\<lambda>(E, t, cutout_size, cap, tesscuts, tries, w). nat (cap + 1 - tries))") auto

declare fetch_loop.simps [simp del]

text \<open>
  Lines 138 to 153: the loop that writes one file, entered with \<open>counter = 1\<close>. The
  result is \<open>False\<close> for the \<^verbatim>\<open>return\<close> of line 143 and \<open>True\<close> for the \<^verbatim>\<open>break\<close>.
  The bound of line 141 is the literal 5; \<open>max_counter\<close> is only printed.
\<close>

function write_loop ::
  "env \<Rightarrow> string \<Rightarrow> int \<Rightarrow> string \<Rightarrow> bool \<Rightarrow> tpf \<Rightarrow> int \<Rightarrow> world \<Rightarrow> bool \<times> world" where
  "write_loop E t mc outputname ow f counter w =
     (if counter > 5 then (False, print (Save_skipped t mc) w)
      else
        (case to_fits E (n_write w) outputname ow of
           None \<Rightarrow> (True, w\<lparr>n_write := n_write w + 1, files := (files w)(outputname \<mapsto> f)\<rparr>)
         | Some e \<Rightarrow>
             write_loop E t mc outputname ow f (counter + 1)
               ((print (Save_attempt counter t (ename e)) (w\<lparr>n_write := n_write w + 1, caught := caught w @ [e]\<rparr>))
                  \<lparr>n_sleep := n_sleep w + 1\<rparr>)))"
  by pat_completeness auto
termination
  by (relation "measure (\<lambda>(E, t, mc, outputname, ow, f, counter, w). nat (6 - counter))") auto

declare write_loop.simps [simp del]

text \<open>
  Lines 132 to 155: the loop over the downloaded target pixel files. Line 134 stamps the
  header before the write, so the file holds the payload with its \<^verbatim>\<open>TICID\<close> card; the
  file name comes from the payload's own sector.
\<close>

fun save_all :: "env \<Rightarrow> string \<Rightarrow> int \<Rightarrow> string \<Rightarrow> bool \<Rightarrow> tpf list \<Rightarrow> world \<Rightarrow> exit \<times> world" where
  "save_all E t mc d ow [] w = (All_saved, w)"
| "save_all E t mc d ow (f # tpfs) w =
     (let f1 = f\<lparr>ticid := Some t\<rparr>;
          outputname = joinpath d (fits_name t (sector f1))
      in case write_loop E t mc outputname ow f1 1 w of
           (False, w1) \<Rightarrow> (Save_retries_exceeded, w1)
         | (True, w1) \<Rightarrow> save_all E t mc d ow tpfs (print (Saved outputname) w1))"

text \<open>Lines 97 to 155: everything after the sector numbers are known.\<close>

definition download_and_save ::
  "env \<Rightarrow> string \<Rightarrow> string \<Rightarrow> args \<Rightarrow> string list \<Rightarrow> row list \<Rightarrow> world \<Rightarrow> exit \<times> world" where
  "download_and_save E t d a sectors tesscuts w =
     (let outputnames = map (\<lambda>s. joinpath d (fits_name t s)) sectors
      in case skip_downloaded t sectors outputnames tesscuts w of
           (None, w1) \<Rightarrow> (Nothing_new, w1)
         | (Some tesscuts1, w1) \<Rightarrow>
             (case fetch_loop E t (imsize a) (max_tries a) tesscuts1 1 w1 of
                (Inl x, w2) \<Rightarrow> (x, w2)
              | (Inr tpfs, w2) \<Rightarrow> save_all E t (max_counter a) d (overwrite a) tpfs w2))"

text \<open>
  Lines 75 to 95: the checks on the search result. \<open>Inl e\<close> is an exception that leaves
  the function: \<^verbatim>\<open>re.match(...)\<close> gave \<^verbatim>\<open>None\<close>.
\<close>

definition resolve_and_run ::
  "env \<Rightarrow> string \<Rightarrow> string \<Rightarrow> args \<Rightarrow> row list \<Rightarrow> world \<Rightarrow> (exn + exit) \<times> world" where
  "resolve_and_run E t d a tesscuts w =
     (if length tesscuts = 0 then (Inr No_images_found, print (No_images t) w)
      else
        (let ids = np_unique (map targetid tesscuts)
         in if length ids \<noteq> 1
            then (Inr Multiple_ids, print No_fits_saved (print (Multiple_ids_returned ids) w))
            else
              (case re_match_group1 ''TIC '' (hd ids) of
                 None \<Rightarrow> (Inl AttributeError, w)
               | Some t1 \<Rightarrow>
                   if t \<noteq> t1
                   then (Inr Different_id, print No_fits_saved (print (Different_id_returned ids) w))
                   else
                     (case those (map (\<lambda>r. re_match_group1 ''TESS Sector '' (observation r)) tesscuts) of
                        None \<Rightarrow> (Inl AttributeError, w)
                      | Some sectors \<Rightarrow>
                          (case download_and_save E t d a sectors tesscuts w of
                             (x, w1) \<Rightarrow> (Inr x, w1))))))"

text \<open>
  The whole function. \<open>Inl e\<close>: the call raised \<open>e\<close>; \<open>Inr x\<close>: it returned through \<open>x\<close>.
\<close>

definition download_tesscuts_single :: "env \<Rightarrow> pyval \<Rightarrow> args \<Rightarrow> world \<Rightarrow> (exn + exit) \<times> world" where
  "download_tesscuts_single E TIC a w =
     (case check_args TIC a w of
        Inl e \<Rightarrow> (Inl e, w)
      | Inr (t, d, w1) \<Rightarrow>
          (case query_loop E t (max_tries_MASTquery a) 1 w1 of
             (None, w2) \<Rightarrow> (Inr Query_retries_exceeded, w2)
           | (Some tesscuts, w2) \<Rightarrow> resolve_and_run E t d a tesscuts w2))"

section \<open>download_tesscuts\<close>

text \<open>
  Lines 212 to 214 with one job at a time (\<^verbatim>\<open>nThreads = 1\<close>): the targets run in order,
  each after its progress line, and an exception of one ends the run.
\<close>

fun run_targets :: "env \<Rightarrow> args \<Rightarrow> nat \<Rightarrow> nat \<Rightarrow> pyval list \<Rightarrow> world \<Rightarrow> exn option \<times> world" where
  "run_targets E a n i [] w = (None, w)"
| "run_targets E a n i (TIC # TICs) w =
     (case download_tesscuts_single E TIC a (print (Working_on (i + 1) n TIC) w) of
        (Inl e, w1) \<Rightarrow> (Some e, w1)
      | (Inr x, w1) \<Rightarrow> run_targets E a n (i + 1) TICs w1)"

definition download_tesscuts :: "env \<Rightarrow> pyval \<Rightarrow> args \<Rightarrow> world \<Rightarrow> exn option \<times> world" where
  "download_tesscuts E TICs a w =
     (if is_int TICs then (Some TypeError, w)
      else
        (case TICs of
           PStr s \<Rightarrow>
             (case download_tesscuts_single E TICs a w of
                (Inl e, w1) \<Rightarrow> (Some e, w1)
              | (Inr x, w1) \<Rightarrow> (None, print Clean_cache_hint w1))
         | PList l \<Rightarrow>
             (case run_targets E a (length l) 0 l w of
                (Some e, w1) \<Rightarrow> (Some e, w1)
              | (None, w1) \<Rightarrow> (None, print Clean_cache_hint w1))
         | _ \<Rightarrow> (Some TypeError, w)))"

text \<open>The progress lines of line 194 among the printed lines.\<close>

fun is_progress :: "msg \<Rightarrow> bool" where
  "is_progress (Working_on i n T) = True"
| "is_progress _ = False"

definition progress_lines :: "world \<Rightarrow> msg list" where
  "progress_lines w = filter is_progress (log w)"

text \<open>
  The lines that report an exception (lines 71, 119, 125, 127 and 150), read back as the
  class names they print.
\<close>

fun reported :: "msg \<Rightarrow> string list" where
  "reported (Query_attempt i t n) = [n]"
| "reported (Download_problem t n) = [n]"
| "reported (Download_attempt i t n) = [n]"
| "reported (Save_attempt i t n) = [n]"
| "reported _ = []"

definition error_lines :: "world \<Rightarrow> string list" where
  "error_lines w = concat (map reported (log w))"


section \<open>Concrete runs\<close>

text \<open>
  Worlds, arguments and collaborators of the runs that the theorems below are evaluated on.
\<close>

definition w0 :: world where
  "w0 = \<lparr>files = Map.empty, dirs = {''out''}, mkdir_raises = (\<lambda>p. None), log = [], caught = [],
          n_search = 0, n_fetch = 0, n_write = 0, n_sleep = 0\<rparr>"

definition args0 :: args where
  "args0 = \<lparr>outputdir = PPath ''out'', imsize = PInt 20, overwrite = False,
            max_tries = 10, max_counter = 5, max_tries_MASTquery = 3\<rparr>"

definition rows3 :: "row list" where
  "rows3 = [\<lparr>targetid = ''TIC 1'', observation = ''TESS Sector 1''\<rparr>,
            \<lparr>targetid = ''TIC 1'', observation = ''TESS Sector 2''\<rparr>,
            \<lparr>targetid = ''TIC 1'', observation = ''TESS Sector 3''\<rparr>]"

definition tpfs3 :: "tpf list" where
  "tpfs3 = [\<lparr>sector = ''1'', ticid = None\<rparr>, \<lparr>sector = ''2'', ticid = None\<rparr>,
            \<lparr>sector = ''3'', ticid = None\<rparr>]"

definition OSError :: exn where
  "OSError = Exn False ''OSError''"

definition HTTPError :: exn where
  "HTTPError = Exn False ''HTTPError''"

definition E_unit2 :: env where
  "E_unit2 = \<lparr>search_tesscut = (\<lambda>n q. Inr rows3),
              download_all = (\<lambda>n r s. Inr tpfs3),
              to_fits = (\<lambda>n p ow. if p = ''out/tess1_sec2.fits'' then Some OSError else None)\<rparr>"

definition E_nowrite :: env where
  "E_nowrite = \<lparr>search_tesscut = (\<lambda>n q. Inr rows3),
              download_all = (\<lambda>n r s. Inr tpfs3),
              to_fits = (\<lambda>n p ow. Some OSError)\<rparr>"

definition E_badsize :: env where
  "E_badsize = \<lparr>search_tesscut = (\<lambda>n q. Inr rows3),
              download_all = (\<lambda>n r s. Inl TypeError),
              to_fits = (\<lambda>n p ow. None)\<rparr>"

definition E_offline :: env where
  "E_offline = \<lparr>search_tesscut = (\<lambda>n q. Inl HTTPError),
              download_all = (\<lambda>n r s. Inl HTTPError),
              to_fits = (\<lambda>n p ow. None)\<rparr>"

definition E_nofetch :: env where
  "E_nofetch = \<lparr>search_tesscut = (\<lambda>n q. Inr rows3),
              download_all = (\<lambda>n r s. Inl HTTPError),
              to_fits = (\<lambda>n p ow. None)\<rparr>"

definition E_flaky :: env where
  "E_flaky = \<lparr>search_tesscut = (\<lambda>n q. if n < 2 then Inl HTTPError else Inr rows3),
              download_all = (\<lambda>n r s. Inr tpfs3),
              to_fits = (\<lambda>n p ow. None)\<rparr>"


definition args_nocap :: args where
  "args_nocap = args0\<lparr>max_tries := 0, max_tries_MASTquery := 0\<rparr>"

definition E_ok :: env where
  "E_ok = \<lparr>search_tesscut = (\<lambda>n q. Inr rows3),
            download_all = (\<lambda>n r s. Inr tpfs3),
            to_fits = (\<lambda>n p ow. None)\<rparr>"

definition E_other_id :: env where
  "E_other_id = \<lparr>search_tesscut = (\<lambda>n q. Inr [\<lparr>targetid = ''TIC 2'', observation = ''TESS Sector 1''\<rparr>]),
            download_all = (\<lambda>n r s. Inr tpfs3),
            to_fits = (\<lambda>n p ow. None)\<rparr>"


definition args_strdir :: args where
  "args_strdir = args0\<lparr>outputdir := PStr ''out''\<rparr>"






section \<open>What each phase touches\<close>

lemma print_simps [simp]:
  "files (print m w) = files w" "dirs (print m w) = dirs w"
  "n_search (print m w) = n_search w" "n_fetch (print m w) = n_fetch w"
  "n_write (print m w) = n_write w" "n_sleep (print m w) = n_sleep w"
  "caught (print m w) = caught w" "mkdir_raises (print m w) = mkdir_raises w"
  "log (print m w) = log w @ [m]"
  by (simp_all add: print_def)

lemma query_loop_frame:
  "query_loop E t cap tries w = (r, w') \<Longrightarrow>
     files w' = files w \<and> dirs w' = dirs w \<and> n_fetch w' = n_fetch w \<and>
     n_write w' = n_write w \<and> n_sleep w' = n_sleep w \<and> n_search w \<le> n_search w'"
proof (induction E t cap tries w rule: query_loop.induct)
  case (1 E t cap tries w)
  show ?case
  proof (cases "tries > cap")
    case True
    with "1.prems" show ?thesis by (auto simp add: query_loop.simps)
  next
    case False
    show ?thesis
    proof (cases "search_tesscut E (n_search w) (''TIC '' @ t)")
      case (Inr rows)
      with False "1.prems" show ?thesis by (auto simp add: query_loop.simps)
    next
      case (Inl e)
      with False "1.prems" "1.IH"[OF False Inl] show ?thesis
        by (simp add: query_loop.simps)
    qed
  qed
qed

lemma query_loop_fail_then_ok:
  "tries + int k \<le> cap \<Longrightarrow>
   \<forall>i<k. \<exists>e. search_tesscut E (n_search w + i) (''TIC '' @ t) = Inl e \<Longrightarrow>
   search_tesscut E (n_search w + k) (''TIC '' @ t) = Inr rows \<Longrightarrow>
   \<exists>w'. query_loop E t cap tries w = (Some rows, w') \<and> n_search w' = n_search w + k + 1"
proof (induction k arbitrary: tries w)
  case 0
  then show ?case by (simp add: query_loop.simps)
next
  case (Suc k)
  from Suc.prems(2) obtain e where e: "search_tesscut E (n_search w) (''TIC '' @ t) = Inl e"
    by force
  let ?w = "print (Query_attempt tries t (ename e)) (w\<lparr>n_search := n_search w + 1, caught := caught w @ [e]\<rparr>)"
  have a: "tries + 1 + int k \<le> cap" using Suc.prems(1) by simp
  have b: "\<forall>i<k. \<exists>e. search_tesscut E (n_search ?w + i) (''TIC '' @ t) = Inl e"
    using Suc.prems(2) by (auto simp: )
  have c: "search_tesscut E (n_search ?w + k) (''TIC '' @ t) = Inr rows"
    using Suc.prems(3) by simp
  from Suc.IH[OF a b c] obtain w' where
    "query_loop E t cap (tries + 1) ?w = (Some rows, w')" "n_search w' = n_search ?w + k + 1"
    by blast
  moreover have "\<not> tries > cap" using Suc.prems(1) by simp
  ultimately show ?case using e
    by (subst query_loop.simps) simp
qed

lemma query_loop_all_fail:
  "\<forall>i. int i < cap + 1 - tries \<longrightarrow> (\<exists>e. search_tesscut E (n_search w + i) (''TIC '' @ t) = Inl e) \<Longrightarrow>
   \<exists>w'. query_loop E t cap tries w = (None, w') \<and> n_search w' = n_search w + nat (cap + 1 - tries)"
proof (induction E t cap tries w rule: query_loop.induct)
  case (1 E t cap tries w)
  show ?case
  proof (cases "tries > cap")
    case True
    then show ?thesis by (simp add: query_loop.simps)
  next
    case False
    then obtain e where e: "search_tesscut E (n_search w) (''TIC '' @ t) = Inl e"
      using "1.prems"[rule_format, of 0] by auto
    let ?w = "print (Query_attempt tries t (ename e)) (w\<lparr>n_search := n_search w + 1, caught := caught w @ [e]\<rparr>)"
    have "\<forall>i. int i < cap + 1 - (tries + 1) \<longrightarrow> (\<exists>e. search_tesscut E (n_search ?w + i) (''TIC '' @ t) = Inl e)"
    proof (intro allI impI)
      fix i assume "int i < cap + 1 - (tries + 1)"
      then have "int (Suc i) < cap + 1 - tries" by simp
      from "1.prems"[rule_format, OF this] show "\<exists>e. search_tesscut E (n_search ?w + i) (''TIC '' @ t) = Inl e"
        by simp
    qed
    from "1.IH"[OF False e this] obtain w' where
      "query_loop E t cap (tries + 1) ?w = (None, w')" "n_search w' = n_search ?w + nat (cap + 1 - (tries + 1))"
      by blast
    then show ?thesis using False e
      by (subst query_loop.simps) (simp add: nat_diff_distrib)
  qed
qed

lemma fetch_loop_frame:
  "fetch_loop E t sz cap rows tries w = (r, w') \<Longrightarrow>
     files w' = files w \<and> dirs w' = dirs w \<and> n_search w' = n_search w \<and>
     n_write w' = n_write w \<and> n_sleep w' = n_sleep w \<and> n_fetch w \<le> n_fetch w'"
proof (induction E t sz cap rows tries w rule: fetch_loop.induct)
  case (1 E t sz cap rows tries w)
  show ?case
  proof (cases "tries > cap")
    case True
    with "1.prems" show ?thesis by (auto simp add: fetch_loop.simps)
  next
    case False
    show ?thesis
    proof (cases "download_all E (n_fetch w) rows sz")
      case (Inr tpfs)
      with False "1.prems" show ?thesis by (auto simp add: fetch_loop.simps)
    next
      case (Inl e)
      show ?thesis
      proof (cases "is_TypeError e \<or> ename e = ''SearchError''")
        case True
        with False Inl "1.prems" show ?thesis by (auto simp add: fetch_loop.simps)
      next
        case F2: False
        with False Inl "1.prems" "1.IH"[OF False Inl F2] show ?thesis
          by (simp add: fetch_loop.simps)
      qed
    qed
  qed
qed

lemma fetch_loop_transient_then:
  "tries + int k \<le> cap \<Longrightarrow>
   \<forall>i<k. \<exists>e. download_all E (n_fetch w + i) rows sz = Inl e \<and> \<not> is_TypeError e \<and> ename e \<noteq> ''SearchError'' \<Longrightarrow>
   \<exists>w1. fetch_loop E t sz cap rows tries w = fetch_loop E t sz cap rows (tries + int k) w1 \<and>
        n_fetch w1 = n_fetch w + k \<and> files w1 = files w \<and> n_write w1 = n_write w"
proof (induction k arbitrary: tries w)
  case 0
  then show ?case by auto
next
  case (Suc k)
  from Suc.prems(2) obtain e where e: "download_all E (n_fetch w) rows sz = Inl e"
     "\<not> is_TypeError e" "ename e \<noteq> ''SearchError''"
    by force
  let ?w = "print (Download_attempt tries t (ename e)) (w\<lparr>n_fetch := n_fetch w + 1, caught := caught w @ [e]\<rparr>)"
  have a: "tries + 1 + int k \<le> cap" using Suc.prems(1) by simp
  have b: "\<forall>i<k. \<exists>e. download_all E (n_fetch ?w + i) rows sz = Inl e \<and> \<not> is_TypeError e \<and> ename e \<noteq> ''SearchError''"
    using Suc.prems(2) by auto
  from Suc.IH[OF a b] obtain w1 where
    "fetch_loop E t sz cap rows (tries + 1) ?w = fetch_loop E t sz cap rows (tries + 1 + int k) w1"
    "n_fetch w1 = n_fetch ?w + k" "files w1 = files ?w" "n_write w1 = n_write ?w"
    by blast
  moreover have "\<not> tries > cap" using Suc.prems(1) by simp
  moreover have "tries + 1 + int k = tries + int (Suc k)" by simp
  ultimately show ?case using e
    by (subst fetch_loop.simps) (auto simp del: of_nat_Suc)
qed

lemma fetch_loop_all_transient:
  "\<forall>i. int i < cap + 1 - tries \<longrightarrow>
      (\<exists>e. download_all E (n_fetch w + i) rows sz = Inl e \<and> \<not> is_TypeError e \<and> ename e \<noteq> ''SearchError'') \<Longrightarrow>
   \<exists>w'. fetch_loop E t sz cap rows tries w = (Inl Download_retries_exceeded, w') \<and>
        n_fetch w' = n_fetch w + nat (cap + 1 - tries)"
proof (induction E t sz cap rows tries w rule: fetch_loop.induct)
  case (1 E t sz cap rows tries w)
  show ?case
  proof (cases "tries > cap")
    case True
    then show ?thesis by (simp add: fetch_loop.simps)
  next
    case False
    then obtain e where e: "download_all E (n_fetch w) rows sz = Inl e"
       "\<not> (is_TypeError e \<or> ename e = ''SearchError'')"
      using "1.prems"[rule_format, of 0] by auto
    let ?w = "print (Download_attempt tries t (ename e)) (w\<lparr>n_fetch := n_fetch w + 1, caught := caught w @ [e]\<rparr>)"
    have "\<forall>i. int i < cap + 1 - (tries + 1) \<longrightarrow>
       (\<exists>e. download_all E (n_fetch ?w + i) rows sz = Inl e \<and> \<not> is_TypeError e \<and> ename e \<noteq> ''SearchError'')"
    proof (intro allI impI)
      fix i assume "int i < cap + 1 - (tries + 1)"
      then have "int (Suc i) < cap + 1 - tries" by simp
      from "1.prems"[rule_format, OF this]
      show "\<exists>e. download_all E (n_fetch ?w + i) rows sz = Inl e \<and> \<not> is_TypeError e \<and> ename e \<noteq> ''SearchError''"
        by simp
    qed
    from "1.IH"[OF False e this] obtain w' where
      "fetch_loop E t sz cap rows (tries + 1) ?w = (Inl Download_retries_exceeded, w')"
      "n_fetch w' = n_fetch ?w + nat (cap + 1 - (tries + 1))"
      by blast
    then show ?thesis using False e
      by (subst fetch_loop.simps) (simp add: nat_diff_distrib)
  qed
qed

lemma write_loop_frame:
  "write_loop E t mc p ow f counter w = (r, w') \<Longrightarrow>
     dirs w' = dirs w \<and> n_search w' = n_search w \<and> n_fetch w' = n_fetch w \<and>
     n_write w \<le> n_write w' \<and> n_write w' \<le> n_write w + nat (6 - counter) \<and>
     files w' = (if r then (files w)(p \<mapsto> f) else files w)"
proof (induction E t mc p ow f counter w rule: write_loop.induct)
  case (1 E t mc p ow f counter w)
  show ?case
  proof (cases "counter > 5")
    case True
    with "1.prems" show ?thesis by (auto simp add: write_loop.simps)
  next
    case False
    show ?thesis
    proof (cases "to_fits E (n_write w) p ow")
      case None
      with False "1.prems" show ?thesis by (auto simp add: write_loop.simps)
    next
      case (Some e)
      with False "1.prems" "1.IH"[OF False Some] show ?thesis
        by (auto simp add: write_loop.simps)
    qed
  qed
qed

lemma write_loop_all_fail:
  "\<forall>i. int i < 6 - counter \<longrightarrow> to_fits E (n_write w + i) p ow \<noteq> None \<Longrightarrow>
   \<exists>w'. write_loop E t mc p ow f counter w = (False, w') \<and>
        n_write w' = n_write w + nat (6 - counter) \<and> n_sleep w' = n_sleep w + nat (6 - counter)"
proof (induction E t mc p ow f counter w rule: write_loop.induct)
  case (1 E t mc p ow f counter w)
  show ?case
  proof (cases "counter > 5")
    case True
    then show ?thesis by (simp add: write_loop.simps)
  next
    case False
    then obtain e where e: "to_fits E (n_write w) p ow = Some e"
      using "1.prems"[rule_format, of 0] by auto
    let ?w = "(print (Save_attempt counter t (ename e)) (w\<lparr>n_write := n_write w + 1, caught := caught w @ [e]\<rparr>))\<lparr>n_sleep := n_sleep w + 1\<rparr>"
    have "\<forall>i. int i < 6 - (counter + 1) \<longrightarrow> to_fits E (n_write ?w + i) p ow \<noteq> None"
    proof (intro allI impI)
      fix i assume "int i < 6 - (counter + 1)"
      then have "int (Suc i) < 6 - counter" by simp
      from "1.prems"[rule_format, OF this]
      show "to_fits E (n_write ?w + i) p ow \<noteq> None"
        by simp
    qed
    from "1.IH"[OF False e this] obtain w' where
      "write_loop E t mc p ow f (counter + 1) ?w = (False, w')"
      "n_write w' = n_write ?w + nat (6 - (counter + 1))"
      "n_sleep w' = n_sleep ?w + nat (6 - (counter + 1))"
      by blast
    then show ?thesis using False e
      by (subst write_loop.simps) (simp add: nat_diff_distrib)
  qed
qed

lemma check_args_frame:
  "check_args TIC a w = Inr (t, d, w1) \<Longrightarrow>
     TIC = PStr t \<and> outputdir a = PPath d \<and> is_int (imsize a) \<and>
     files w1 = files w \<and> dirs w1 = insert d (dirs w) \<and> log w1 = log w \<and>
     n_search w1 = n_search w \<and> n_fetch w1 = n_fetch w \<and> n_write w1 = n_write w \<and> n_sleep w1 = n_sleep w \<and>
     caught w1 = caught w \<and> mkdir_raises w1 = mkdir_raises w"
  by (auto simp: check_args_def path_exists_def split: pyval.splits if_splits option.splits)

lemmas run_defs = download_tesscuts_single_def check_args_def path_exists_def query_loop.simps
  resolve_and_run_def np_unique_def re_match_group1_def is_digit_def download_and_save_def
  skip_downloaded_def joinpath_def fits_name_def fetch_loop.simps write_loop.simps print_def Let_def

lemmas scenario_defs = w0_def args0_def rows3_def tpfs3_def OSError_def HTTPError_def

lemma skip_downloaded_frame:
  "skip_downloaded t sectors outputnames rows w = (r, w') \<Longrightarrow>
     files w' = files w \<and> dirs w' = dirs w \<and> n_search w' = n_search w \<and>
     n_fetch w' = n_fetch w \<and> n_write w' = n_write w \<and> n_sleep w' = n_sleep w"
  by (auto simp: skip_downloaded_def Let_def split: if_splits)

lemma fetch_loop_no_tries:
  "cap < tries \<Longrightarrow>
   fetch_loop E t sz cap rows tries w = (Inl Download_retries_exceeded, print (Download_skipped t cap) w)"
  by (simp add: fetch_loop.simps)

lemma query_loop_no_tries:
  "cap < tries \<Longrightarrow> query_loop E t cap tries w = (None, print (Query_skipped t cap) w)"
  by (simp add: query_loop.simps)

lemma download_and_save_no_tries:
  "max_tries a < 1 \<Longrightarrow>
     files (snd (download_and_save E t d a sectors rows w)) = files w \<and>
     n_fetch (snd (download_and_save E t d a sectors rows w)) = n_fetch w \<and>
     n_write (snd (download_and_save E t d a sectors rows w)) = n_write w"
proof -
  assume cap: "max_tries a < 1"
  obtain r w1 where s: "skip_downloaded t sectors (map (\<lambda>s. joinpath d (fits_name t s)) sectors) rows w = (r, w1)"
    by (cases "skip_downloaded t sectors (map (\<lambda>s. joinpath d (fits_name t s)) sectors) rows w")
  from skip_downloaded_frame[OF s] cap s show ?thesis
    by (cases r) (simp_all add: download_and_save_def fetch_loop_no_tries)
qed

lemma resolve_and_run_cases:
  assumes "resolve_and_run E t d a rows w = (r, w')"
  shows "(files w' = files w \<and> dirs w' = dirs w \<and> n_search w' = n_search w \<and>
          n_fetch w' = n_fetch w \<and> n_write w' = n_write w \<and> n_sleep w' = n_sleep w \<and>
          r \<in> {Inr No_images_found, Inr Multiple_ids, Inr Different_id, Inl AttributeError})
       \<or> (\<exists>sectors x.
            rows \<noteq> [] \<and> length (np_unique (map targetid rows)) = 1 \<and>
            re_match_group1 ''TIC '' (hd (np_unique (map targetid rows))) = Some t \<and>
            those (map (\<lambda>r. re_match_group1 ''TESS Sector '' (observation r)) rows) = Some sectors \<and>
            download_and_save E t d a sectors rows w = (x, w') \<and> r = Inr x)"
proof (cases "rows = []")
  case True
  with assms show ?thesis by (auto simp: resolve_and_run_def)
next
  case ne: False
  show ?thesis
  proof (cases "length (np_unique (map targetid rows)) = 1")
    case False
    with ne assms show ?thesis by (auto simp: resolve_and_run_def Let_def)
  next
    case one: True
    show ?thesis
    proof (cases "re_match_group1 ''TIC '' (hd (np_unique (map targetid rows)))")
      case None
      with ne one assms show ?thesis by (auto simp: resolve_and_run_def Let_def)
    next
      case (Some t1)
      show ?thesis
      proof (cases "t = t1")
        case False
        with ne one Some assms show ?thesis by (auto simp: resolve_and_run_def Let_def)
      next
        case same: True
        show ?thesis
        proof (cases "those (map (\<lambda>r. re_match_group1 ''TESS Sector '' (observation r)) rows)")
          case None
          with ne one Some same assms show ?thesis by (auto simp: resolve_and_run_def Let_def)
        next
          case (Some sectors)
          with ne one \<open>re_match_group1 ''TIC '' (hd (np_unique (map targetid rows))) = Some t1\<close> same assms
          show ?thesis
            by (auto simp: resolve_and_run_def Let_def split: prod.splits)
        qed
      qed
    qed
  qed
qed

lemma resolve_and_run_no_tries:
  assumes "max_tries a < 1"
  shows "files (snd (resolve_and_run E t d a rows w)) = files w \<and>
     n_fetch (snd (resolve_and_run E t d a rows w)) = n_fetch w \<and>
     n_write (snd (resolve_and_run E t d a rows w)) = n_write w"
proof -
  obtain r w' where rw: "resolve_and_run E t d a rows w = (r, w')"
    by (cases "resolve_and_run E t d a rows w")
  from resolve_and_run_cases[OF rw] show ?thesis
  proof
    assume "files w' = files w \<and> dirs w' = dirs w \<and> n_search w' = n_search w \<and>
          n_fetch w' = n_fetch w \<and> n_write w' = n_write w \<and> n_sleep w' = n_sleep w \<and>
          r \<in> {Inr No_images_found, Inr Multiple_ids, Inr Different_id, Inl AttributeError}"
    with rw show ?thesis by simp
  next
    assume "\<exists>sectors x.
            rows \<noteq> [] \<and> length (np_unique (map targetid rows)) = 1 \<and>
            re_match_group1 ''TIC '' (hd (np_unique (map targetid rows))) = Some t \<and>
            those (map (\<lambda>r. re_match_group1 ''TESS Sector '' (observation r)) rows) = Some sectors \<and>
            download_and_save E t d a sectors rows w = (x, w') \<and> r = Inr x"
    then obtain sectors x where "download_and_save E t d a sectors rows w = (x, w')" by blast
    with download_and_save_no_tries[OF assms, of E t d sectors rows w] rw show ?thesis by simp
  qed
qed

lemma fetch_loop_rejected:
  "tries \<le> cap \<Longrightarrow> download_all E (n_fetch w) rows sz = Inl e \<Longrightarrow>
   is_TypeError e \<or> ename e = ''SearchError'' \<Longrightarrow>
   fetch_loop E t sz cap rows tries w
     = (Inl Download_rejected, print (Download_problem t (ename e))
          (w\<lparr>n_fetch := n_fetch w + 1, caught := caught w @ [e]\<rparr>))"
  by (subst fetch_loop.simps) auto

lemma save_all_frame:
  "save_all E t mc d ow tpfs w = (x, w') \<Longrightarrow>
     dirs w' = dirs w \<and> n_search w' = n_search w \<and> n_fetch w' = n_fetch w \<and>
     n_write w \<le> n_write w' \<and> dom (files w) \<subseteq> dom (files w') \<and>
     (x = All_saved \<or> x = Save_retries_exceeded) \<and>
     (x = All_saved \<longrightarrow> (\<forall>g\<in>set tpfs. joinpath d (fits_name t (sector g)) \<in> dom (files w')))"
proof (induction tpfs arbitrary: w)
  case Nil
  then show ?case by simp
next
  case (Cons f tpfs)
  let ?f1 = "f\<lparr>ticid := Some t\<rparr>"
  let ?p = "joinpath d (fits_name t (sector f))"
  obtain ok w1 where wl: "write_loop E t mc ?p ow ?f1 1 w = (ok, w1)"
    by (cases "write_loop E t mc ?p ow ?f1 1 w")
  note fr = write_loop_frame[OF wl]
  show ?case
  proof (cases ok)
    case False
    with wl Cons.prems fr show ?thesis by (auto simp: Let_def)
  next
    case True
    with wl Cons.prems have rest: "save_all E t mc d ow tpfs (print (Saved ?p) w1) = (x, w')"
      by (simp add: Let_def)
    from fr True have d1: "dom (files w1) = insert ?p (dom (files w))" by simp
    from Cons.IH[OF rest] have ih:
      "dirs w' = dirs (print (Saved ?p) w1)" "n_search w' = n_search (print (Saved ?p) w1)"
      "n_fetch w' = n_fetch (print (Saved ?p) w1)" "n_write (print (Saved ?p) w1) \<le> n_write w'"
      "dom (files (print (Saved ?p) w1)) \<subseteq> dom (files w')"
      "x = All_saved \<or> x = Save_retries_exceeded"
      "x = All_saved \<longrightarrow> (\<forall>g\<in>set tpfs. joinpath d (fits_name t (sector g)) \<in> dom (files w'))"
      by simp_all
    from ih(5) d1 have d2: "dom (files w) \<subseteq> dom (files w')" "?p \<in> dom (files w')"
      by auto
    from ih(1-4) fr have "dirs w' = dirs w" "n_search w' = n_search w" "n_fetch w' = n_fetch w"
      "n_write w \<le> n_write w'" by simp_all
    with d2 ih(6,7) show ?thesis by simp
  qed
qed

lemma save_all_append:
  "save_all E t mc d ow pre w = (All_saved, w1) \<Longrightarrow>
   save_all E t mc d ow (pre @ post) w = save_all E t mc d ow post w1"
proof (induction pre arbitrary: w)
  case Nil
  then show ?case by simp
next
  case (Cons f pre)
  let ?f1 = "f\<lparr>ticid := Some t\<rparr>"
  let ?p = "joinpath d (fits_name t (sector f))"
  obtain ok w2 where wl: "write_loop E t mc ?p ow ?f1 1 w = (ok, w2)"
    by (cases "write_loop E t mc ?p ow ?f1 1 w")
  show ?case
  proof (cases ok)
    case False
    with wl Cons.prems show ?thesis by (simp add: Let_def)
  next
    case True
    with wl Cons.prems have "save_all E t mc d ow pre (print (Saved ?p) w2) = (All_saved, w1)"
      by (simp add: Let_def)
    from Cons.IH[OF this] wl True show ?thesis by (simp add: Let_def)
  qed
qed

lemma length_np_unique: "length (np_unique xs) = card (set xs)"
  by (simp add: np_unique_def length_remdups_card_conv)

lemma set_np_unique: "set (np_unique xs) = set xs"
  by (simp add: np_unique_def)

lemma np_unique_single:
  assumes "length (np_unique xs) = 1"
  shows "\<forall>x\<in>set xs. x = hd (np_unique xs)"
proof -
  from assms obtain y where y: "np_unique xs = [y]"
    by (cases "np_unique xs") auto
  with set_np_unique[of xs] have "set xs = {y}" by simp
  with y show ?thesis by simp
qed

lemma query_loop_found:
  "query_loop E t cap tries w = (Some rows, w') \<Longrightarrow>
     \<exists>n. search_tesscut E n (''TIC '' @ t) = Inr rows"
proof (induction E t cap tries w rule: query_loop.induct)
  case (1 E t cap tries w)
  show ?case
  proof (cases "tries > cap")
    case True
    with "1.prems" show ?thesis by (simp add: query_loop.simps)
  next
    case False
    show ?thesis
    proof (cases "search_tesscut E (n_search w) (''TIC '' @ t)")
      case (Inr r)
      with False "1.prems" have "r = rows" by (simp add: query_loop.simps)
      with Inr show ?thesis by blast
    next
      case (Inl e)
      with False "1.prems" "1.IH"[OF False Inl] show ?thesis
        by (simp add: query_loop.simps)
    qed
  qed
qed

lemma single_cases:
  assumes "download_tesscuts_single E TIC a w = (r, w')"
  shows "(files w' = files w \<and> n_fetch w' = n_fetch w \<and> n_write w' = n_write w \<and>
          r \<noteq> Inr All_saved)
       \<or> (\<exists>t d w1 rows w2 sectors x.
            check_args TIC a w = Inr (t, d, w1) \<and>
            query_loop E t (max_tries_MASTquery a) 1 w1 = (Some rows, w2) \<and>
            rows \<noteq> [] \<and> length (np_unique (map targetid rows)) = 1 \<and>
            re_match_group1 ''TIC '' (hd (np_unique (map targetid rows))) = Some t \<and>
            those (map (\<lambda>r. re_match_group1 ''TESS Sector '' (observation r)) rows) = Some sectors \<and>
            download_and_save E t d a sectors rows w2 = (x, w') \<and> r = Inr x)"
proof (cases "check_args TIC a w")
  case (Inl e)
  with assms show ?thesis by (auto simp: download_tesscuts_single_def)
next
  case (Inr y)
  obtain t d w1 where y: "y = (t, d, w1)" by (cases y)
  note c = Inr[unfolded y]
  note cf = check_args_frame[OF c]
  obtain q w2 where q: "query_loop E t (max_tries_MASTquery a) 1 w1 = (q, w2)"
    by (cases "query_loop E t (max_tries_MASTquery a) 1 w1")
  note qf = query_loop_frame[OF q]
  show ?thesis
  proof (cases q)
    case None
    with c q assms have "r = Inr Query_retries_exceeded" "w' = w2"
      by (simp_all add: download_tesscuts_single_def)
    with cf qf show ?thesis by simp
  next
    case (Some rows)
    with c q assms have rr: "resolve_and_run E t d a rows w2 = (r, w')"
      by (simp add: download_tesscuts_single_def)
    from resolve_and_run_cases[OF rr] show ?thesis
    proof
      assume "files w' = files w2 \<and> dirs w' = dirs w2 \<and> n_search w' = n_search w2 \<and>
          n_fetch w' = n_fetch w2 \<and> n_write w' = n_write w2 \<and> n_sleep w' = n_sleep w2 \<and>
          r \<in> {Inr No_images_found, Inr Multiple_ids, Inr Different_id, Inl AttributeError}"
      with cf qf show ?thesis by auto
    next
      assume "\<exists>sectors x.
            rows \<noteq> [] \<and> length (np_unique (map targetid rows)) = 1 \<and>
            re_match_group1 ''TIC '' (hd (np_unique (map targetid rows))) = Some t \<and>
            those (map (\<lambda>r. re_match_group1 ''TESS Sector '' (observation r)) rows) = Some sectors \<and>
            download_and_save E t d a sectors rows w2 = (x, w') \<and> r = Inr x"
      with c q Some show ?thesis by blast
    qed
  qed
qed







lemma check_args_TypeError:
  "\<not> is_str TIC \<or> \<not> is_path (outputdir a) \<or> \<not> is_int (imsize a) \<Longrightarrow>
   check_args TIC a w = Inl TypeError"
  by (cases TIC; cases "outputdir a") (auto simp: check_args_def)

section \<open>Progress lines\<close>

lemma progress_lines_print [simp]:
  "progress_lines (print m w) = (if is_progress m then progress_lines w @ [m] else progress_lines w)"
  by (simp add: progress_lines_def)

lemma progress_lines_upd [simp]:
  "progress_lines (w\<lparr>n_search := a\<rparr>) = progress_lines w"
  "progress_lines (w\<lparr>n_fetch := b\<rparr>) = progress_lines w"
  "progress_lines (w\<lparr>n_write := c\<rparr>) = progress_lines w"
  "progress_lines (w\<lparr>n_sleep := e\<rparr>) = progress_lines w"
  "progress_lines (w\<lparr>files := f\<rparr>) = progress_lines w"
  "progress_lines (w\<lparr>dirs := g\<rparr>) = progress_lines w"
  "progress_lines (w\<lparr>caught := h\<rparr>) = progress_lines w"
  by (simp_all add: progress_lines_def)

lemma query_loop_progress:
  "query_loop E t cap tries w = (r, w') \<Longrightarrow> progress_lines w' = progress_lines w"
proof (induction E t cap tries w rule: query_loop.induct)
  case (1 E t cap tries w)
  show ?case
  proof (cases "tries > cap")
    case True
    with "1.prems" show ?thesis by (auto simp add: query_loop.simps)
  next
    case False
    show ?thesis
    proof (cases "search_tesscut E (n_search w) (''TIC '' @ t)")
      case (Inr rows)
      with False "1.prems" show ?thesis by (auto simp add: query_loop.simps)
    next
      case (Inl e)
      with False "1.prems" "1.IH"[OF False Inl] show ?thesis
        by (simp add: query_loop.simps)
    qed
  qed
qed

lemma fetch_loop_progress:
  "fetch_loop E t sz cap rows tries w = (r, w') \<Longrightarrow> progress_lines w' = progress_lines w"
proof (induction E t sz cap rows tries w rule: fetch_loop.induct)
  case (1 E t sz cap rows tries w)
  show ?case
  proof (cases "tries > cap")
    case True
    with "1.prems" show ?thesis by (auto simp add: fetch_loop.simps)
  next
    case False
    show ?thesis
    proof (cases "download_all E (n_fetch w) rows sz")
      case (Inr tpfs)
      with False "1.prems" show ?thesis by (auto simp add: fetch_loop.simps)
    next
      case (Inl e)
      show ?thesis
      proof (cases "is_TypeError e \<or> ename e = ''SearchError''")
        case True
        with False Inl "1.prems" show ?thesis by (auto simp add: fetch_loop.simps)
      next
        case F2: False
        with False Inl "1.prems" "1.IH"[OF False Inl F2] show ?thesis
          by (simp add: fetch_loop.simps)
      qed
    qed
  qed
qed

lemma write_loop_progress:
  "write_loop E t mc p ow f counter w = (r, w') \<Longrightarrow> progress_lines w' = progress_lines w"
proof (induction E t mc p ow f counter w rule: write_loop.induct)
  case (1 E t mc p ow f counter w)
  show ?case
  proof (cases "counter > 5")
    case True
    with "1.prems" show ?thesis by (auto simp add: write_loop.simps)
  next
    case False
    show ?thesis
    proof (cases "to_fits E (n_write w) p ow")
      case None
      with False "1.prems" show ?thesis by (auto simp add: write_loop.simps)
    next
      case (Some e)
      with False "1.prems" "1.IH"[OF False Some] show ?thesis
        by (simp add: write_loop.simps)
    qed
  qed
qed

lemma save_all_progress:
  "save_all E t mc d ow tpfs w = (x, w') \<Longrightarrow> progress_lines w' = progress_lines w"
proof (induction tpfs arbitrary: w)
  case Nil
  then show ?case by simp
next
  case (Cons f tpfs)
  let ?f1 = "f\<lparr>ticid := Some t\<rparr>"
  let ?p = "joinpath d (fits_name t (sector f))"
  obtain ok w1 where wl: "write_loop E t mc ?p ow ?f1 1 w = (ok, w1)"
    by (cases "write_loop E t mc ?p ow ?f1 1 w")
  note fr = write_loop_progress[OF wl]
  show ?case
  proof (cases ok)
    case False
    with wl Cons.prems fr show ?thesis by (auto simp: Let_def)
  next
    case True
    with wl Cons.prems have rest: "save_all E t mc d ow tpfs (print (Saved ?p) w1) = (x, w')"
      by (simp add: Let_def)
    from Cons.IH[OF rest] fr show ?thesis by simp
  qed
qed

lemma skip_downloaded_progress:
  "skip_downloaded t sectors outputnames rows w = (r, w') \<Longrightarrow> progress_lines w' = progress_lines w"
  by (auto simp: skip_downloaded_def Let_def split: if_splits)

lemma download_and_save_progress:
  assumes "download_and_save E t d a sectors rows w = (x, w')"
  shows "progress_lines w' = progress_lines w"
proof -
  let ?names = "map (\<lambda>s. joinpath d (fits_name t s)) sectors"
  obtain r w1 where s: "skip_downloaded t sectors ?names rows w = (r, w1)"
    by (cases "skip_downloaded t sectors ?names rows w")
  note sf = skip_downloaded_progress[OF s]
  show ?thesis
  proof (cases r)
    case None
    with s assms have "w' = w1" by (simp add: download_and_save_def)
    with sf show ?thesis by simp
  next
    case (Some rows1)
    obtain y w2 where f: "fetch_loop E t (imsize a) (max_tries a) rows1 1 w1 = (y, w2)"
      by (cases "fetch_loop E t (imsize a) (max_tries a) rows1 1 w1")
    note ff = fetch_loop_progress[OF f]
    show ?thesis
    proof (cases y)
      case (Inl z)
      with s Some f assms have "w' = w2" by (simp add: download_and_save_def)
      with sf ff show ?thesis by simp
    next
      case (Inr tpfs)
      with s Some f assms have "save_all E t (max_counter a) d (overwrite a) tpfs w2 = (x, w')"
        by (simp add: download_and_save_def)
      from save_all_progress[OF this] sf ff show ?thesis by simp
    qed
  qed
qed

lemma resolve_and_run_progress:
  assumes "resolve_and_run E t d a rows w = (r, w')"
  shows "progress_lines w' = progress_lines w"
proof -
  have "progress_lines w1 = progress_lines w"
    if "download_and_save E t d a sectors rows w = (x, w1)" for sectors x w1
    using download_and_save_progress[OF that] .
  with assms show ?thesis
    by (auto simp: resolve_and_run_def Let_def split: if_splits option.splits prod.splits)
qed

lemma single_progress:
  assumes "download_tesscuts_single E TIC a w = (r, w')"
  shows "progress_lines w' = progress_lines w"
proof (cases "check_args TIC a w")
  case (Inl e)
  with assms show ?thesis by (auto simp: download_tesscuts_single_def)
next
  case (Inr y)
  obtain t d w1 where y: "y = (t, d, w1)" by (cases y)
  note c = Inr[unfolded y]
  from check_args_frame[OF c] have cf: "progress_lines w1 = progress_lines w"
    by (simp add: progress_lines_def)
  obtain q w2 where q: "query_loop E t (max_tries_MASTquery a) 1 w1 = (q, w2)"
    by (cases "query_loop E t (max_tries_MASTquery a) 1 w1")
  note qf = query_loop_progress[OF q]
  show ?thesis
  proof (cases q)
    case None
    with c q assms have "w' = w2" by (simp add: download_tesscuts_single_def)
    with cf qf show ?thesis by simp
  next
    case (Some rows)
    with c q assms have "resolve_and_run E t d a rows w2 = (r, w')"
      by (simp add: download_tesscuts_single_def)
    from resolve_and_run_progress[OF this] cf qf show ?thesis by simp
  qed
qed

lemma run_targets_append:
  "run_targets E a n i pre w = (None, w1) \<Longrightarrow>
   run_targets E a n i (pre @ post) w = run_targets E a n (i + length pre) post w1"
proof (induction pre arbitrary: i w)
  case Nil
  then show ?case by simp
next
  case (Cons T pre)
  let ?w = "print (Working_on (i + 1) n T) w"
  obtain r w2 where run: "download_tesscuts_single E T a ?w = (r, w2)"
    by (cases "download_tesscuts_single E T a ?w")
  show ?case
  proof (cases r)
    case (Inl e)
    with run Cons.prems show ?thesis by simp
  next
    case (Inr x)
    with run Cons.prems have "run_targets E a n (i + 1) pre w2 = (None, w1)" by simp
    from Cons.IH[OF this] run Inr show ?thesis by simp
  qed
qed

lemma run_targets_progress:
  "run_targets E a n i TICs w = (None, w') \<Longrightarrow>
   progress_lines w' = progress_lines w @ map (\<lambda>j. Working_on (i + j + 1) n (TICs ! j)) [0..<length TICs]"
proof (induction TICs arbitrary: i w)
  case Nil
  then show ?case by simp
next
  case (Cons T TICs)
  let ?w = "print (Working_on (i + 1) n T) w"
  obtain r w2 where run: "download_tesscuts_single E T a ?w = (r, w2)"
    by (cases "download_tesscuts_single E T a ?w")
  note sp = single_progress[OF run]
  show ?case
  proof (cases r)
    case (Inl e)
    with run Cons.prems show ?thesis by simp
  next
    case (Inr x)
    with run Cons.prems have "run_targets E a n (i + 1) TICs w2 = (None, w')" by simp
    from Cons.IH[OF this] sp
    have "progress_lines w' = progress_lines w @ Working_on (i + 1) n T #
            map (\<lambda>j. Working_on (i + 1 + j + 1) n (TICs ! j)) [0..<length TICs]"
      by simp
    also have "map (\<lambda>j. Working_on (i + 1 + j + 1) n (TICs ! j)) [0..<length TICs]
        = map (\<lambda>j. Working_on (i + j + 1) n ((T # TICs) ! j)) (map Suc [0..<length TICs])"
      by simp
    finally show ?thesis
      by (simp add: upt_conv_Cons map_Suc_upt del: upt_Suc)
  qed
qed

lemmas driver_defs = download_tesscuts_def run_defs scenario_defs

section \<open>The check for existing files\<close>




















section \<open>Caught exceptions and the lines that report them\<close>

lemma error_lines_print [simp]:
  "error_lines (print m w) = error_lines w @ reported m"
  by (simp add: error_lines_def print_def)

lemma error_lines_upd [simp]:
  "error_lines (w\<lparr>n_search := a\<rparr>) = error_lines w"
  "error_lines (w\<lparr>n_fetch := b\<rparr>) = error_lines w"
  "error_lines (w\<lparr>n_write := c\<rparr>) = error_lines w"
  "error_lines (w\<lparr>n_sleep := e\<rparr>) = error_lines w"
  "error_lines (w\<lparr>files := f\<rparr>) = error_lines w"
  "error_lines (w\<lparr>dirs := g\<rparr>) = error_lines w"
  "error_lines (w\<lparr>caught := h\<rparr>) = error_lines w"
  by (simp_all add: error_lines_def)















section \<open>A payload that cannot be written\<close>

text \<open>
  Claim C1: when the write of a payload fails on every attempt, the writer gives up that
  payload only and goes on with the next one; with three payloads of which the second
  cannot be written, the files of the first and the third exist afterwards.

  Line 143 is a \<^verbatim>\<open>return\<close> from \<^verbatim>\<open>download_tesscuts_single\<close>, after the message
  \<^verbatim>\<open>Skipped TIC = ...\<close>: it ends the target, not the payload. What holds instead: once
  the payloads \<open>pre\<close> are saved and the next payload \<open>f\<close> fails on its five attempts,
  the call returns; the files written for \<open>pre\<close> stay, no file is added, and the
  payloads \<open>post\<close> after \<open>f\<close> are never tried (five more write calls in all).
\<close>

theorem save_stops_at_failed_payload:
  assumes "save_all E t mc d ow pre w = (All_saved, w1)"
    and "\<forall>i<5. to_fits E (n_write w1 + i) (joinpath d (fits_name t (sector f))) ow \<noteq> None"
  shows "fst (save_all E t mc d ow (pre @ f # post) w) = Save_retries_exceeded
       \<and> files (snd (save_all E t mc d ow (pre @ f # post) w)) = files w1
       \<and> n_write (snd (save_all E t mc d ow (pre @ f # post) w)) = n_write w1 + 5
       \<and> (\<forall>g\<in>set pre. joinpath d (fits_name t (sector g))
                          \<in> dom (files (snd (save_all E t mc d ow (pre @ f # post) w))))"
proof -
  let ?f1 = "f\<lparr>ticid := Some t\<rparr>"
  let ?p = "joinpath d (fits_name t (sector f))"
  from assms(2) have "\<forall>i. int i < 6 - 1 \<longrightarrow> to_fits E (n_write w1 + i) ?p ow \<noteq> None"
    by simp
  from write_loop_all_fail[OF this, of t mc ?f1] obtain w2 where
    wl: "write_loop E t mc ?p ow ?f1 1 w1 = (False, w2)" "n_write w2 = n_write w1 + nat (6 - 1)"
    by blast
  from write_loop_frame[OF wl(1)] have fs: "files w2 = files w1" by simp
  have run: "save_all E t mc d ow (pre @ f # post) w = (Save_retries_exceeded, w2)"
    using save_all_append[OF assms(1), of "f # post"] wl by (simp add: Let_def)
  from save_all_frame[OF assms(1)] have "\<forall>g\<in>set pre. joinpath d (fits_name t (sector g)) \<in> dom (files w1)"
    by simp
  with run fs wl(2) show ?thesis by simp
qed

theorem save_stops_at_failed_payload_witness:
  "fst (save_all E_unit2 ''1'' 5 ''out'' False
          ([\<lparr>sector = ''1'', ticid = None\<rparr>] @ \<lparr>sector = ''2'', ticid = None\<rparr> # [\<lparr>sector = ''3'', ticid = None\<rparr>]) w0)
     = Save_retries_exceeded
   \<and> n_write (snd (save_all E_unit2 ''1'' 5 ''out'' False
          ([\<lparr>sector = ''1'', ticid = None\<rparr>] @ \<lparr>sector = ''2'', ticid = None\<rparr> # [\<lparr>sector = ''3'', ticid = None\<rparr>]) w0))
     = 6
   \<and> ''out/tess1_sec1.fits'' \<in> dom (files (snd (save_all E_unit2 ''1'' 5 ''out'' False
          ([\<lparr>sector = ''1'', ticid = None\<rparr>] @ \<lparr>sector = ''2'', ticid = None\<rparr> # [\<lparr>sector = ''3'', ticid = None\<rparr>]) w0)))"
proof -
  let ?w1 = "snd (save_all E_unit2 ''1'' 5 ''out'' False [\<lparr>sector = ''1'', ticid = None\<rparr>] w0)"
  have "fst (save_all E_unit2 ''1'' 5 ''out'' False [\<lparr>sector = ''1'', ticid = None\<rparr>] w0) = All_saved"
    by (simp add: write_loop.simps E_unit2_def joinpath_def fits_name_def Let_def scenario_defs)
  then have h1: "save_all E_unit2 ''1'' 5 ''out'' False [\<lparr>sector = ''1'', ticid = None\<rparr>] w0 = (All_saved, ?w1)"
    by (metis prod.collapse)
  have h2: "\<forall>i<5. to_fits E_unit2 (n_write ?w1 + i)
               (joinpath ''out'' (fits_name ''1'' (sector \<lparr>sector = ''2'', ticid = None\<rparr>))) False \<noteq> None"
    by (simp add: E_unit2_def joinpath_def fits_name_def OSError_def)
  have v: "n_write ?w1 = 1"
    by (simp add: write_loop.simps E_unit2_def joinpath_def fits_name_def Let_def print_def scenario_defs)
  note th = save_stops_at_failed_payload[OF h1 h2, of "[\<lparr>sector = ''3'', ticid = None\<rparr>]"]
  from th have a: "fst (save_all E_unit2 ''1'' 5 ''out'' False
          ([\<lparr>sector = ''1'', ticid = None\<rparr>] @ \<lparr>sector = ''2'', ticid = None\<rparr> # [\<lparr>sector = ''3'', ticid = None\<rparr>]) w0)
     = Save_retries_exceeded"
    by blast
  from th v have b: "n_write (snd (save_all E_unit2 ''1'' 5 ''out'' False
          ([\<lparr>sector = ''1'', ticid = None\<rparr>] @ \<lparr>sector = ''2'', ticid = None\<rparr> # [\<lparr>sector = ''3'', ticid = None\<rparr>]) w0))
     = 6"
    by (simp del: save_all.simps)
  from th have "\<forall>g\<in>set [\<lparr>sector = ''1'', ticid = None\<rparr>]. joinpath ''out'' (fits_name ''1'' (sector g))
      \<in> dom (files (snd (save_all E_unit2 ''1'' 5 ''out'' False
          ([\<lparr>sector = ''1'', ticid = None\<rparr>] @ \<lparr>sector = ''2'', ticid = None\<rparr> # [\<lparr>sector = ''3'', ticid = None\<rparr>]) w0)))"
    by blast
  then have c: "''out/tess1_sec1.fits''
      \<in> dom (files (snd (save_all E_unit2 ''1'' 5 ''out'' False
          ([\<lparr>sector = ''1'', ticid = None\<rparr>] @ \<lparr>sector = ''2'', ticid = None\<rparr> # [\<lparr>sector = ''3'', ticid = None\<rparr>]) w0)))"
    by (simp add: joinpath_def fits_name_def del: save_all.simps)
  from a b c show ?thesis by blast
qed

text \<open>
  The run of claim C1 on the code: three payloads, every write of
  \<^verbatim>\<open>out/tess1_sec2.fits\<close> fails and every other write would succeed. The file of the
  first payload is there with its \<^verbatim>\<open>TICID\<close> card, the file of the third is not.
\<close>

theorem later_payload_not_written:
  "fst (download_tesscuts_single E_unit2 (PStr ''1'') args0 w0) = Inr Save_retries_exceeded
   \<and> files (snd (download_tesscuts_single E_unit2 (PStr ''1'') args0 w0)) ''out/tess1_sec1.fits''
       = Some \<lparr>sector = ''1'', ticid = Some ''1''\<rparr>
   \<and> files (snd (download_tesscuts_single E_unit2 (PStr ''1'') args0 w0)) ''out/tess1_sec3.fits'' = None
   \<and> to_fits E_unit2 6 ''out/tess1_sec3.fits'' False = None"
  by (simp add: run_defs scenario_defs E_unit2_def)

section \<open>Which exceptions leave the batch\<close>




section \<open>The write retry cap\<close>

text \<open>
  Claim C3: for every fetched payload the writer makes at most \<open>max_counter\<close> write
  attempts, one second apart, for every value of \<open>max_counter\<close>.

  The docstring calls \<open>max_counter\<close> the maximum number of attempts to save a same FITS
  image and the message of line 142 prints it as the cap, but line 141 compares the
  counter with the literal 5. Run with \<open>max_counter = 2\<close> and a disk that refuses every
  write: the first payload is tried five times, with five sleeps, before the call gives up.
\<close>

theorem write_cap_is_five_not_max_counter:
  "n_write (snd (download_tesscuts_single E_nowrite (PStr ''1'') (args0\<lparr>max_counter := 2\<rparr>) w0)) = 5
   \<and> n_sleep (snd (download_tesscuts_single E_nowrite (PStr ''1'') (args0\<lparr>max_counter := 2\<rparr>) w0)) = 5
   \<and> fst (download_tesscuts_single E_nowrite (PStr ''1'') (args0\<lparr>max_counter := 2\<rparr>) w0)
       = Inr Save_retries_exceeded"
  by (simp add: run_defs scenario_defs E_nowrite_def)

section \<open>The download loop: rejected requests and retries\<close>

text \<open>
  Claim C4: during the download, a malformed-request error (\<^verbatim>\<open>TypeError\<close>) or an error
  of the class \<^verbatim>\<open>SearchError\<close> on any attempt ends the target at once, with no further
  attempt (on attempt 1: exactly one attempt is made); every other exception is retried
  up to the cap \<open>max_tries\<close>, after which the target is given up.

  The statement is on lines 97 to 155, for a target whose check for existing files left
  the rows \<open>rows1\<close> to download: \<open>k\<close> attempts raise other exceptions, attempt
  \<open>k + 1\<close> is within the cap and raises \<open>e\<close>. In both cases nothing is written.
\<close>

theorem fetch_terminal_or_retry:
  assumes "skip_downloaded t sectors (map (\<lambda>s. joinpath d (fits_name t s)) sectors) rows w
             = (Some rows1, w1)"
  shows "(int k < max_tries a \<and>
          (\<forall>i<k. \<exists>x. download_all E (n_fetch w + i) rows1 (imsize a) = Inl x \<and>
                      \<not> is_TypeError x \<and> ename x \<noteq> ''SearchError'') \<and>
          download_all E (n_fetch w + k) rows1 (imsize a) = Inl e \<and>
          (is_TypeError e \<or> ename e = ''SearchError'') \<longrightarrow>
            fst (download_and_save E t d a sectors rows w) = Download_rejected \<and>
            n_fetch (snd (download_and_save E t d a sectors rows w)) = n_fetch w + k + 1 \<and>
            n_write (snd (download_and_save E t d a sectors rows w)) = n_write w \<and>
            files (snd (download_and_save E t d a sectors rows w)) = files w)
       \<and> ((\<forall>i. int i < max_tries a \<longrightarrow>
              (\<exists>x. download_all E (n_fetch w + i) rows1 (imsize a) = Inl x \<and>
                   \<not> is_TypeError x \<and> ename x \<noteq> ''SearchError'')) \<longrightarrow>
            fst (download_and_save E t d a sectors rows w) = Download_retries_exceeded \<and>
            n_fetch (snd (download_and_save E t d a sectors rows w)) = n_fetch w + nat (max_tries a) \<and>
            n_write (snd (download_and_save E t d a sectors rows w)) = n_write w \<and>
            files (snd (download_and_save E t d a sectors rows w)) = files w)"
proof -
  let ?cap = "max_tries a" and ?sz = "imsize a"
  let ?run = "download_and_save E t d a sectors rows w"
  from skip_downloaded_frame[OF assms] have fr: "n_fetch w1 = n_fetch w" "files w1 = files w"
    "n_write w1 = n_write w" by simp_all
  have run: "?run = (case fetch_loop E t ?sz ?cap rows1 1 w1 of
                       (Inl x, w2) \<Rightarrow> (x, w2)
                     | (Inr tpfs, w2) \<Rightarrow> save_all E t (max_counter a) d (overwrite a) tpfs w2)"
    using assms by (simp add: download_and_save_def)
  have first: "fst ?run = Download_rejected \<and> n_fetch (snd ?run) = n_fetch w + k + 1 \<and>
      n_write (snd ?run) = n_write w \<and> files (snd ?run) = files w"
    if h: "int k < ?cap \<and>
          (\<forall>i<k. \<exists>x. download_all E (n_fetch w + i) rows1 ?sz = Inl x \<and>
                      \<not> is_TypeError x \<and> ename x \<noteq> ''SearchError'') \<and>
          download_all E (n_fetch w + k) rows1 ?sz = Inl e \<and>
          (is_TypeError e \<or> ename e = ''SearchError'')"
  proof -
    from h have a: "1 + int k \<le> ?cap" by simp
    from h fr have b: "\<forall>i<k. \<exists>x. download_all E (n_fetch w1 + i) rows1 ?sz = Inl x \<and>
                      \<not> is_TypeError x \<and> ename x \<noteq> ''SearchError''" by simp
    from fetch_loop_transient_then[OF a b, of t] obtain w2 where
      w2: "fetch_loop E t ?sz ?cap rows1 1 w1 = fetch_loop E t ?sz ?cap rows1 (1 + int k) w2"
        "n_fetch w2 = n_fetch w1 + k" "files w2 = files w1" "n_write w2 = n_write w1"
      by blast
    from h w2 fr have c: "download_all E (n_fetch w2) rows1 ?sz = Inl e" by simp
    from h have e: "is_TypeError e \<or> ename e = ''SearchError''" by simp
    have "fetch_loop E t ?sz ?cap rows1 1 w1
         = (Inl Download_rejected, print (Download_problem t (ename e)) (w2\<lparr>n_fetch := n_fetch w2 + 1, caught := caught w2 @ [e]\<rparr>))"
      unfolding w2(1) by (rule fetch_loop_rejected[OF a c e])
    with run w2(2-4) fr show ?thesis by simp
  qed
  have second: "fst ?run = Download_retries_exceeded \<and> n_fetch (snd ?run) = n_fetch w + nat ?cap \<and>
      n_write (snd ?run) = n_write w \<and> files (snd ?run) = files w"
    if h: "\<forall>i. int i < ?cap \<longrightarrow>
              (\<exists>x. download_all E (n_fetch w + i) rows1 ?sz = Inl x \<and>
                   \<not> is_TypeError x \<and> ename x \<noteq> ''SearchError'')"
  proof -
    from h fr have "\<forall>i. int i < ?cap + 1 - 1 \<longrightarrow>
              (\<exists>x. download_all E (n_fetch w1 + i) rows1 ?sz = Inl x \<and>
                   \<not> is_TypeError x \<and> ename x \<noteq> ''SearchError'')" by simp
    from fetch_loop_all_transient[OF this, of t] obtain w2 where
      w2: "fetch_loop E t ?sz ?cap rows1 1 w1 = (Inl Download_retries_exceeded, w2)"
        "n_fetch w2 = n_fetch w1 + nat (?cap + 1 - 1)" by blast
    from fetch_loop_frame[OF w2(1)] run w2 fr show ?thesis by simp
  qed
  from first second show ?thesis by blast
qed

theorem fetch_terminal_or_retry_witness:
  "fst (download_and_save E_badsize ''1'' ''out'' args0 [''1'', ''2'', ''3''] rows3 w0) = Download_rejected
   \<and> n_fetch (snd (download_and_save E_badsize ''1'' ''out'' args0 [''1'', ''2'', ''3''] rows3 w0)) = 1
   \<and> fst (download_and_save E_nofetch ''1'' ''out'' args0 [''1'', ''2'', ''3''] rows3 w0)
       = Download_retries_exceeded
   \<and> n_fetch (snd (download_and_save E_nofetch ''1'' ''out'' args0 [''1'', ''2'', ''3''] rows3 w0)) = 10
   \<and> files (snd (download_and_save E_nofetch ''1'' ''out'' args0 [''1'', ''2'', ''3''] rows3 w0)) = Map.empty"
proof -
  have s: "skip_downloaded ''1'' [''1'', ''2'', ''3'']
             (map (\<lambda>s. joinpath ''out'' (fits_name ''1'' s)) [''1'', ''2'', ''3'']) rows3 w0
           = (Some rows3, w0)"
    by (simp add: skip_downloaded_def path_exists_def joinpath_def fits_name_def scenario_defs)
  have h1: "int 0 < max_tries args0 \<and>
          (\<forall>i<0. \<exists>x. download_all E_badsize (n_fetch w0 + i) rows3 (imsize args0) = Inl x \<and>
                      \<not> is_TypeError x \<and> ename x \<noteq> ''SearchError'') \<and>
          download_all E_badsize (n_fetch w0 + 0) rows3 (imsize args0) = Inl TypeError \<and>
          (is_TypeError TypeError \<or> ename TypeError = ''SearchError'')"
    by (simp add: E_badsize_def scenario_defs)
  have h2: "\<forall>i. int i < max_tries args0 \<longrightarrow>
              (\<exists>x. download_all E_nofetch (n_fetch w0 + i) rows3 (imsize args0) = Inl x \<and>
                   \<not> is_TypeError x \<and> ename x \<noteq> ''SearchError'')"
    by (simp add: E_nofetch_def scenario_defs)
  have v: "max_tries args0 = 10" "n_fetch w0 = 0" "files w0 = Map.empty"
    by (simp_all add: scenario_defs)
  show ?thesis
    using fetch_terminal_or_retry[OF s, where k = 0 and E = E_badsize and e = TypeError and a = args0] h1
      fetch_terminal_or_retry[OF s, where E = E_nofetch and a = args0] h2 v
    by simp
qed

section \<open>The search retry boundary\<close>

text \<open>
  Claim C5: for every \<open>k < max_tries_MASTquery\<close>, a catalog query that fails \<open>k\<close> times
  and then succeeds is a completed resolution (the call goes on past the search loop with
  the rows found), and a query that fails \<open>max_tries_MASTquery\<close> times ends the target
  with no file written.

  The search calls of this target are the calls number \<open>n_search w\<close>,
  \<open>n_search w + 1\<close>, ... of the run. The arguments are supposed to pass the type checks.
\<close>

theorem query_retry_boundary:
  assumes "check_args TIC a w = Inr (t, d, w1)"
  shows "(int k < max_tries_MASTquery a \<and>
          (\<forall>i<k. \<exists>e. search_tesscut E (n_search w + i) (''TIC '' @ t) = Inl e) \<and>
          search_tesscut E (n_search w + k) (''TIC '' @ t) = Inr rows \<longrightarrow>
            fst (query_loop E t (max_tries_MASTquery a) 1 w1) = Some rows \<and>
            n_search (snd (query_loop E t (max_tries_MASTquery a) 1 w1)) = n_search w + k + 1 \<and>
            download_tesscuts_single E TIC a w
              = resolve_and_run E t d a rows (snd (query_loop E t (max_tries_MASTquery a) 1 w1)))
       \<and> ((\<forall>i. int i < max_tries_MASTquery a \<longrightarrow>
              (\<exists>e. search_tesscut E (n_search w + i) (''TIC '' @ t) = Inl e)) \<longrightarrow>
            fst (download_tesscuts_single E TIC a w) = Inr Query_retries_exceeded \<and>
            n_search (snd (download_tesscuts_single E TIC a w)) = n_search w + nat (max_tries_MASTquery a) \<and>
            files (snd (download_tesscuts_single E TIC a w)) = files w \<and>
            n_fetch (snd (download_tesscuts_single E TIC a w)) = n_fetch w \<and>
            n_write (snd (download_tesscuts_single E TIC a w)) = n_write w)"
proof (intro conjI impI)
  let ?cap = "max_tries_MASTquery a"
  from check_args_frame[OF assms] have fr: "n_search w1 = n_search w" "files w1 = files w"
    "n_fetch w1 = n_fetch w" "n_write w1 = n_write w" by simp_all
  {
    assume h: "int k < ?cap \<and>
          (\<forall>i<k. \<exists>e. search_tesscut E (n_search w + i) (''TIC '' @ t) = Inl e) \<and>
          search_tesscut E (n_search w + k) (''TIC '' @ t) = Inr rows"
    then have a: "1 + int k \<le> ?cap" by simp
    from h fr have b: "\<forall>i<k. \<exists>e. search_tesscut E (n_search w1 + i) (''TIC '' @ t) = Inl e" by simp
    from h fr have c: "search_tesscut E (n_search w1 + k) (''TIC '' @ t) = Inr rows" by simp
    from query_loop_fail_then_ok[OF a b c] obtain w2 where
      q: "query_loop E t ?cap 1 w1 = (Some rows, w2)" "n_search w2 = n_search w1 + k + 1" by blast
    from q show "fst (query_loop E t ?cap 1 w1) = Some rows" by simp
    from q fr show "n_search (snd (query_loop E t ?cap 1 w1)) = n_search w + k + 1" by simp
    from q assms show "download_tesscuts_single E TIC a w
              = resolve_and_run E t d a rows (snd (query_loop E t ?cap 1 w1))"
      by (simp add: download_tesscuts_single_def)
  }
  {
    assume h: "\<forall>i. int i < ?cap \<longrightarrow> (\<exists>e. search_tesscut E (n_search w + i) (''TIC '' @ t) = Inl e)"
    with fr have "\<forall>i. int i < ?cap + 1 - 1 \<longrightarrow> (\<exists>e. search_tesscut E (n_search w1 + i) (''TIC '' @ t) = Inl e)"
      by simp
    from query_loop_all_fail[OF this] obtain w2 where
      q: "query_loop E t ?cap 1 w1 = (None, w2)" "n_search w2 = n_search w1 + nat (?cap + 1 - 1)" by blast
    from q assms have r: "download_tesscuts_single E TIC a w = (Inr Query_retries_exceeded, w2)"
      by (simp add: download_tesscuts_single_def)
    from r show "fst (download_tesscuts_single E TIC a w) = Inr Query_retries_exceeded" by simp
    from r q fr show "n_search (snd (download_tesscuts_single E TIC a w)) = n_search w + nat ?cap" by simp
    from query_loop_frame[OF q(1)] r fr show "files (snd (download_tesscuts_single E TIC a w)) = files w" by simp
    from query_loop_frame[OF q(1)] r fr show "n_fetch (snd (download_tesscuts_single E TIC a w)) = n_fetch w" by simp
    from query_loop_frame[OF q(1)] r fr show "n_write (snd (download_tesscuts_single E TIC a w)) = n_write w" by simp
  }
qed

theorem query_retry_boundary_witness:
  "fst (query_loop E_flaky ''1'' 3 1 w0) = Some rows3
   \<and> n_search (snd (query_loop E_flaky ''1'' 3 1 w0)) = 3
   \<and> download_tesscuts_single E_flaky (PStr ''1'') args0 w0
       = resolve_and_run E_flaky ''1'' ''out'' args0 rows3 (snd (query_loop E_flaky ''1'' 3 1 w0))
   \<and> fst (download_tesscuts_single E_offline (PStr ''1'') args0 w0) = Inr Query_retries_exceeded
   \<and> n_search (snd (download_tesscuts_single E_offline (PStr ''1'') args0 w0)) = 3
   \<and> files (snd (download_tesscuts_single E_offline (PStr ''1'') args0 w0)) = Map.empty"
proof -
  have c: "check_args (PStr ''1'') args0 w0 = Inr (''1'', ''out'', w0)"
    by (simp add: check_args_def path_exists_def scenario_defs)
  have h1: "int 2 < max_tries_MASTquery args0 \<and>
          (\<forall>i<2. \<exists>e. search_tesscut E_flaky (n_search w0 + i) (''TIC '' @ ''1'') = Inl e) \<and>
          search_tesscut E_flaky (n_search w0 + 2) (''TIC '' @ ''1'') = Inr rows3"
    by (simp add: E_flaky_def scenario_defs)
  have h2: "\<forall>i. int i < max_tries_MASTquery args0 \<longrightarrow>
              (\<exists>e. search_tesscut E_offline (n_search w0 + i) (''TIC '' @ ''1'') = Inl e)"
    by (simp add: E_offline_def)
  have v: "max_tries_MASTquery args0 = 3" "n_search w0 = 0" "files w0 = Map.empty"
    by (simp_all add: scenario_defs)
  show ?thesis
    using query_retry_boundary[OF c, where k = 2 and E = E_flaky and rows = rows3] h1
      query_retry_boundary[OF c, where E = E_offline] h2 v
    by simp
qed

section \<open>The identity check\<close>

text \<open>
  Claim C6: if the rows of the search result carry more than one distinct identity, or an
  identity other than the requested one, the target ends before any download or write, so
  a mismatch never produces a file; and for every target that produces files, the
  identity read from the search result is the requested identifier.

  The identity of a row is what \<^verbatim>\<open>re.match('TIC (\\d+)', targetid).group(1)\<close> reads from
  its column \<^verbatim>\<open>targetid\<close>. First part: the call found \<open>rows\<close> and they do not all carry
  one identity equal to \<open>t\<close>. Second part: if the call changed a file or tried a write,
  the archive answered the search for \<open>s\<close> with rows of one identity, which is \<open>s\<close>.
\<close>

theorem identity_mismatch_writes_nothing:
  "(check_args TIC a w = Inr (t, d, w1) \<and>
    query_loop E t (max_tries_MASTquery a) 1 w1 = (Some rows, w2) \<and>
    (card (targetid ` set rows) \<noteq> 1 \<or>
     (\<exists>r\<in>set rows. re_match_group1 ''TIC '' (targetid r) \<noteq> Some t)) \<longrightarrow>
      files (snd (download_tesscuts_single E TIC a w)) = files w \<and>
      n_fetch (snd (download_tesscuts_single E TIC a w)) = n_fetch w \<and>
      n_write (snd (download_tesscuts_single E TIC a w)) = n_write w)
   \<and> (files (snd (download_tesscuts_single E TIC a w)) \<noteq> files w \<or>
       n_write (snd (download_tesscuts_single E TIC a w)) \<noteq> n_write w \<longrightarrow>
      (\<exists>s n found. TIC = PStr s \<and> search_tesscut E n (''TIC '' @ s) = Inr found \<and>
          card (targetid ` set found) = 1 \<and>
          (\<forall>r\<in>set found. re_match_group1 ''TIC '' (targetid r) = Some s)))"
proof -
  obtain r w' where run: "download_tesscuts_single E TIC a w = (r, w')"
    by (cases "download_tesscuts_single E TIC a w")
  let ?same = "files w' = files w \<and> n_fetch w' = n_fetch w \<and> n_write w' = n_write w"
  have ok: "card (targetid ` set found) = 1 \<and>
            (\<forall>r\<in>set found. re_match_group1 ''TIC '' (targetid r) = Some s)"
    if "length (np_unique (map targetid found)) = 1"
      and "re_match_group1 ''TIC '' (hd (np_unique (map targetid found))) = Some s" for found s
  proof -
    from that(1) have "card (targetid ` set found) = 1" by (simp add: length_np_unique)
    moreover from np_unique_single[OF that(1)]
    have "\<forall>r\<in>set found. targetid r = hd (np_unique (map targetid found))" by simp
    ultimately show ?thesis using that(2) by simp
  qed
  have first: ?same
    if h: "check_args TIC a w = Inr (t, d, w1) \<and>
      query_loop E t (max_tries_MASTquery a) 1 w1 = (Some rows, w2) \<and>
      (card (targetid ` set rows) \<noteq> 1 \<or>
       (\<exists>r\<in>set rows. re_match_group1 ''TIC '' (targetid r) \<noteq> Some t))"
    using single_cases[OF run]
  proof (elim disjE exE conjE)
    assume "files w' = files w" "n_fetch w' = n_fetch w" "n_write w' = n_write w"
    then show ?same by simp
  next
    fix t' d' w1' rows' w2' sectors x
    assume c: "check_args TIC a w = Inr (t', d', w1')"
        "query_loop E t' (max_tries_MASTquery a) 1 w1' = (Some rows', w2')"
        "length (np_unique (map targetid rows')) = 1"
        "re_match_group1 ''TIC '' (hd (np_unique (map targetid rows'))) = Some t'"
    from c(1,2) h have "t' = t" "rows' = rows" by simp_all
    with ok[OF c(3,4)] have "card (targetid ` set rows) = 1"
      "\<forall>r\<in>set rows. re_match_group1 ''TIC '' (targetid r) = Some t" by simp_all
    with h have False by auto
    then show ?same ..
  qed
  have second: "\<exists>s n found. TIC = PStr s \<and> search_tesscut E n (''TIC '' @ s) = Inr found \<and>
          card (targetid ` set found) = 1 \<and>
          (\<forall>r\<in>set found. re_match_group1 ''TIC '' (targetid r) = Some s)"
    if h: "files w' \<noteq> files w \<or> n_write w' \<noteq> n_write w"
    using single_cases[OF run]
  proof (elim disjE exE conjE)
    assume "files w' = files w" "n_fetch w' = n_fetch w" "n_write w' = n_write w"
    with h have False by simp
    then show ?thesis ..
  next
    fix t' d' w1' rows' w2' sectors x
    assume c: "check_args TIC a w = Inr (t', d', w1')"
        "query_loop E t' (max_tries_MASTquery a) 1 w1' = (Some rows', w2')"
        "length (np_unique (map targetid rows')) = 1"
        "re_match_group1 ''TIC '' (hd (np_unique (map targetid rows'))) = Some t'"
    from check_args_frame[OF c(1)] have 1: "TIC = PStr t'" by simp
    from query_loop_found[OF c(2)] obtain n where
      2: "search_tesscut E n (''TIC '' @ t') = Inr rows'" ..
    from ok[OF c(3,4)] have 3: "card (targetid ` set rows') = 1"
      and 4: "\<forall>r\<in>set rows'. re_match_group1 ''TIC '' (targetid r) = Some t'" by simp_all
    from 1 2 3 4 show ?thesis by (intro exI conjI)
  qed
  show ?thesis
  proof (intro conjI impI)
    assume h: "check_args TIC a w = Inr (t, d, w1) \<and>
      query_loop E t (max_tries_MASTquery a) 1 w1 = (Some rows, w2) \<and>
      (card (targetid ` set rows) \<noteq> 1 \<or>
       (\<exists>r\<in>set rows. re_match_group1 ''TIC '' (targetid r) \<noteq> Some t))"
    from first[OF h] run show "files (snd (download_tesscuts_single E TIC a w)) = files w"
      "n_fetch (snd (download_tesscuts_single E TIC a w)) = n_fetch w"
      "n_write (snd (download_tesscuts_single E TIC a w)) = n_write w" by simp_all
  next
    assume "files (snd (download_tesscuts_single E TIC a w)) \<noteq> files w \<or>
       n_write (snd (download_tesscuts_single E TIC a w)) \<noteq> n_write w"
    with run have "files w' \<noteq> files w \<or> n_write w' \<noteq> n_write w" by simp
    then show "\<exists>s n found. TIC = PStr s \<and> search_tesscut E n (''TIC '' @ s) = Inr found \<and>
          card (targetid ` set found) = 1 \<and>
          (\<forall>r\<in>set found. re_match_group1 ''TIC '' (targetid r) = Some s)"
      by (rule second)
  qed
qed

theorem identity_mismatch_writes_nothing_witness:
  "files (snd (download_tesscuts_single E_other_id (PStr ''1'') args0 w0)) = Map.empty
   \<and> n_fetch (snd (download_tesscuts_single E_other_id (PStr ''1'') args0 w0)) = 0
   \<and> n_write (snd (download_tesscuts_single E_other_id (PStr ''1'') args0 w0)) = 0
   \<and> n_write (snd (download_tesscuts_single E_ok (PStr ''1'') args0 w0)) = 3
   \<and> (\<exists>s n found. PStr ''1'' = PStr s \<and> search_tesscut E_ok n (''TIC '' @ s) = Inr found \<and>
          card (targetid ` set found) = 1 \<and>
          (\<forall>r\<in>set found. re_match_group1 ''TIC '' (targetid r) = Some s))"
proof -
  let ?bad = "[\<lparr>targetid = ''TIC 2'', observation = ''TESS Sector 1''\<rparr>]"
  have h1: "check_args (PStr ''1'') args0 w0 = Inr (''1'', ''out'', w0) \<and>
    query_loop E_other_id ''1'' (max_tries_MASTquery args0) 1 w0
      = (Some ?bad, w0\<lparr>n_search := n_search w0 + 1\<rparr>) \<and>
    (card (targetid ` set ?bad) \<noteq> 1 \<or>
     (\<exists>r\<in>set ?bad. re_match_group1 ''TIC '' (targetid r) \<noteq> Some ''1''))"
    by (simp add: check_args_def path_exists_def query_loop.simps E_other_id_def
        re_match_group1_def is_digit_def scenario_defs)
  have n: "n_write (snd (download_tesscuts_single E_ok (PStr ''1'') args0 w0)) = 3"
    by (simp add: run_defs scenario_defs E_ok_def)
  then have h2: "files (snd (download_tesscuts_single E_ok (PStr ''1'') args0 w0)) \<noteq> files w0 \<or>
       n_write (snd (download_tesscuts_single E_ok (PStr ''1'') args0 w0)) \<noteq> n_write w0"
    by (simp add: w0_def)
  have v: "files w0 = Map.empty" "n_fetch w0 = 0" "n_write w0 = 0" by (simp_all add: w0_def)
  note th1 = identity_mismatch_writes_nothing[where TIC = "PStr ''1''" and a = args0 and w = w0
      and t = "''1''" and d = "''out''" and ?w1.0 = w0 and E = E_other_id and rows = ?bad
      and ?w2.0 = "w0\<lparr>n_search := n_search w0 + 1\<rparr>", THEN conjunct1, THEN mp, OF h1]
  note th2 = identity_mismatch_writes_nothing[where TIC = "PStr ''1''" and a = args0 and w = w0
      and E = E_ok, THEN conjunct2, THEN mp, OF h2]
  from th1 v
  have a: "files (snd (download_tesscuts_single E_other_id (PStr ''1'') args0 w0)) = Map.empty"
    and b: "n_fetch (snd (download_tesscuts_single E_other_id (PStr ''1'') args0 w0)) = 0"
    and c: "n_write (snd (download_tesscuts_single E_other_id (PStr ''1'') args0 w0)) = 0"
    by simp_all
  from a b c n th2 show ?thesis by (intro conjI)
qed

section \<open>Running the targets a second time\<close>




section \<open>Type checks and the first network call\<close>

text \<open>
  Claim C8: every invocation with a configuration of the wrong type (a target identifier
  that is not a string, an \<^verbatim>\<open>outputdir\<close> that is not a \<^verbatim>\<open>Path\<close>, an \<^verbatim>\<open>imsize\<close> that
  is not an \<^verbatim>\<open>int\<close>, a bare \<^verbatim>\<open>int\<close> as the collection of targets) raises a type error
  before any network call.

  This holds for \<^verbatim>\<open>download_tesscuts_single\<close>, and for \<^verbatim>\<open>download_tesscuts\<close> given a
  bare \<^verbatim>\<open>int\<close> (or another object that is neither a string nor iterable) or a single
  string. Given a collection, the driver checks nothing but that it is iterable: the
  checks of lines 43 to 51 run when a target starts. The target with the wrong type
  raises straight after its progress line, before any network call of its own (fourth
  part, \<open>w\<close> being the state the earlier targets left), and when it is the first of the
  collection no network call has been made at all.
\<close>

theorem type_errors_before_network:
  "(\<not> is_str TIC \<or> \<not> is_path (outputdir a) \<or> \<not> is_int (imsize a) \<longrightarrow>
      download_tesscuts_single E TIC a w = (Inl TypeError, w))
   \<and> (is_int TICs \<or> is_path TICs \<or> TICs = PObj \<longrightarrow>
      download_tesscuts E TICs a w = (Some TypeError, w))
   \<and> (is_str TICs \<and> (\<not> is_path (outputdir a) \<or> \<not> is_int (imsize a)) \<longrightarrow>
      download_tesscuts E TICs a w = (Some TypeError, w))
   \<and> (\<not> is_str TIC \<or> \<not> is_path (outputdir a) \<or> \<not> is_int (imsize a) \<longrightarrow>
      run_targets E a n i (TIC # rest) w = (Some TypeError, print (Working_on (i + 1) n TIC) w)
      \<and> download_tesscuts E (PList (TIC # rest)) a w
          = (Some TypeError, print (Working_on 1 (length (TIC # rest)) TIC) w))"
proof (intro conjI impI)
  assume h: "\<not> is_str TIC \<or> \<not> is_path (outputdir a) \<or> \<not> is_int (imsize a)"
  from check_args_TypeError[OF h] show "download_tesscuts_single E TIC a w = (Inl TypeError, w)"
    by (simp add: download_tesscuts_single_def)
  from check_args_TypeError[OF h]
  show r: "run_targets E a n i (TIC # rest) w = (Some TypeError, print (Working_on (i + 1) n TIC) w)" for n i
    by (simp add: download_tesscuts_single_def)
  from r[of "length (TIC # rest)" 0]
  show "download_tesscuts E (PList (TIC # rest)) a w
          = (Some TypeError, print (Working_on 1 (length (TIC # rest)) TIC) w)"
    by (simp add: download_tesscuts_def)
next
  assume "is_int TICs \<or> is_path TICs \<or> TICs = PObj"
  then show "download_tesscuts E TICs a w = (Some TypeError, w)"
    by (cases TICs) (auto simp: download_tesscuts_def)
next
  assume h: "is_str TICs \<and> (\<not> is_path (outputdir a) \<or> \<not> is_int (imsize a))"
  then obtain s where s: "TICs = PStr s" by (cases TICs) auto
  from h have "\<not> is_str TICs \<or> \<not> is_path (outputdir a) \<or> \<not> is_int (imsize a)" by simp
  from check_args_TypeError[OF this] s
  show "download_tesscuts E TICs a w = (Some TypeError, w)"
    by (simp add: download_tesscuts_def download_tesscuts_single_def)
qed

theorem type_errors_before_network_witness:
  "download_tesscuts_single E_ok (PInt 349092922) args0 w0 = (Inl TypeError, w0)
   \<and> download_tesscuts E_ok (PInt 349092922) args0 w0 = (Some TypeError, w0)
   \<and> download_tesscuts E_ok (PStr ''1'') args_strdir w0 = (Some TypeError, w0)
   \<and> download_tesscuts E_ok (PList [PInt 349092922, PStr ''1'']) args0 w0
       = (Some TypeError, print (Working_on 1 2 (PInt 349092922)) w0)"
proof -
  have h1: "\<not> is_str (PInt 349092922) \<or> \<not> is_path (outputdir args0) \<or> \<not> is_int (imsize args0)"
    by simp
  have h2: "is_int (PInt 349092922) \<or> is_path (PInt 349092922) \<or> PInt 349092922 = PObj"
    by simp
  have h3: "is_str (PStr ''1'') \<and> (\<not> is_path (outputdir args_strdir) \<or> \<not> is_int (imsize args_strdir))"
    by (simp add: args_strdir_def args0_def)
  note th = type_errors_before_network[where TIC = "PInt 349092922" and a = args0
      and TICs = "PInt 349092922" and E = E_ok and w = w0 and rest = "[PStr ''1'']"]
  note th3 = type_errors_before_network[where TICs = "PStr ''1''" and a = args_strdir
      and E = E_ok and w = w0, THEN conjunct2, THEN conjunct2, THEN conjunct1, THEN mp, OF h3]
  from th h1 have a: "download_tesscuts_single E_ok (PInt 349092922) args0 w0 = (Inl TypeError, w0)"
    by simp
  from th h2 have b: "download_tesscuts E_ok (PInt 349092922) args0 w0 = (Some TypeError, w0)"
    by simp
  from th h1 have c: "download_tesscuts E_ok (PList [PInt 349092922, PStr ''1'']) args0 w0
       = (Some TypeError, print (Working_on 1 2 (PInt 349092922)) w0)"
    by simp
  from a b th3 c show ?thesis by (intro conjI)
qed

text \<open>
  The runs of claim C8 on the code: in the collection \<^verbatim>\<open>['1', 2]\<close> the identifier
  \<^verbatim>\<open>2\<close> is rejected after the archive was searched and the files were downloaded for
  \<^verbatim>\<open>'1'\<close>; and with an empty collection an \<^verbatim>\<open>outputdir\<close> given as a string is never
  rejected.
\<close>

theorem type_error_after_network_calls:
  "fst (download_tesscuts E_ok (PList [PStr ''1'', PInt 2]) args0 w0) = Some TypeError
   \<and> n_search (snd (download_tesscuts E_ok (PList [PStr ''1'', PInt 2]) args0 w0)) = 1
   \<and> n_fetch (snd (download_tesscuts E_ok (PList [PStr ''1'', PInt 2]) args0 w0)) = 1
   \<and> fst (download_tesscuts E_ok (PList []) args_strdir w0) = None"
  by (simp add: download_tesscuts_def run_defs scenario_defs E_ok_def args_strdir_def)

section \<open>The progress line\<close>

text \<open>
  Claim C9: for every invocation of the driver, given a single target string or a
  collection of targets, a progress marker \<open>(index + 1)/total\<close> is emitted before each
  target's pipeline starts.

  The marker is printed by \<^verbatim>\<open>run_download_tesscuts_single\<close>, the wrapper used for the
  jobs of a collection (``Print the progress of the parallel runs''); a plain string goes
  to \<^verbatim>\<open>download_tesscuts_single\<close> directly (line 203). What holds, with the targets
  run one after the other: in a collection, once the targets \<open>pre\<close> before \<open>TIC\<close> have
  returned, the pipeline of \<open>TIC\<close> starts in the state they left plus the line
  \<open>Working_on (index + 1) total TIC\<close>; a collection that completes has printed exactly
  one such line per target, in order; and a single string adds no progress line.
\<close>

theorem progress_line_for_each_target_of_a_collection:
  "(run_targets E a (length (pre @ TIC # post)) 0 pre w = (None, w1) \<longrightarrow>
      download_tesscuts E (PList (pre @ TIC # post)) a w
        = (case download_tesscuts_single E TIC a
                  (print (Working_on (length pre + 1) (length (pre @ TIC # post)) TIC) w1) of
             (Inl e, w2) \<Rightarrow> (Some e, w2)
           | (Inr x, w2) \<Rightarrow>
               (case run_targets E a (length (pre @ TIC # post)) (length pre + 1) post w2 of
                  (Some e, w3) \<Rightarrow> (Some e, w3)
                | (None, w3) \<Rightarrow> (None, print Clean_cache_hint w3))))
   \<and> (fst (download_tesscuts E (PList l) a w) = None \<longrightarrow>
        progress_lines (snd (download_tesscuts E (PList l) a w))
          = progress_lines w @ map (\<lambda>j. Working_on (j + 1) (length l) (l ! j)) [0..<length l])
   \<and> progress_lines (snd (download_tesscuts E (PStr s) a w)) = progress_lines w"
proof (intro conjI impI)
  assume h: "run_targets E a (length (pre @ TIC # post)) 0 pre w = (None, w1)"
  let ?n = "length (pre @ TIC # post)"
  let ?w = "print (Working_on (length pre + 1) ?n TIC) w1"
  obtain r w2 where run: "download_tesscuts_single E TIC a ?w = (r, w2)"
    by (cases "download_tesscuts_single E TIC a ?w")
  from run_targets_append[OF h, of "TIC # post"]
  have "run_targets E a ?n 0 (pre @ TIC # post) w = run_targets E a ?n (length pre) (TIC # post) w1"
    by simp
  with run show "download_tesscuts E (PList (pre @ TIC # post)) a w
        = (case download_tesscuts_single E TIC a ?w of
             (Inl e, w2) \<Rightarrow> (Some e, w2)
           | (Inr x, w2) \<Rightarrow>
               (case run_targets E a ?n (length pre + 1) post w2 of
                  (Some e, w3) \<Rightarrow> (Some e, w3)
                | (None, w3) \<Rightarrow> (None, print Clean_cache_hint w3)))"
    by (cases r) (simp_all add: download_tesscuts_def)
next
  assume h: "fst (download_tesscuts E (PList l) a w) = None"
  obtain r w' where rt: "run_targets E a (length l) 0 l w = (r, w')"
    by (cases "run_targets E a (length l) 0 l w")
  with h have r: "r = None" by (cases r) (simp_all add: download_tesscuts_def)
  from run_targets_progress[OF rt[unfolded r]] rt r
  show "progress_lines (snd (download_tesscuts E (PList l) a w))
          = progress_lines w @ map (\<lambda>j. Working_on (j + 1) (length l) (l ! j)) [0..<length l]"
    by (simp add: download_tesscuts_def)
next
  obtain r w' where run: "download_tesscuts_single E (PStr s) a w = (r, w')"
    by (cases "download_tesscuts_single E (PStr s) a w")
  from single_progress[OF run] run
  show "progress_lines (snd (download_tesscuts E (PStr s) a w)) = progress_lines w"
    by (cases r) (simp_all add: download_tesscuts_def)
qed

theorem progress_line_for_each_target_of_a_collection_witness:
  "download_tesscuts E_ok (PList ([PStr ''1''] @ PStr ''2'' # [])) args0 w0
     = (case download_tesscuts_single E_ok (PStr ''2'') args0
               (print (Working_on (length [PStr ''1''] + 1) (length ([PStr ''1''] @ PStr ''2'' # []))
                         (PStr ''2''))
                  (snd (run_targets E_ok args0 (length ([PStr ''1''] @ PStr ''2'' # [])) 0
                          [PStr ''1''] w0))) of
          (Inl e, w2) \<Rightarrow> (Some e, w2)
        | (Inr x, w2) \<Rightarrow>
            (case run_targets E_ok args0 (length ([PStr ''1''] @ PStr ''2'' # []))
                    (length [PStr ''1''] + 1) [] w2 of
               (Some e, w3) \<Rightarrow> (Some e, w3)
             | (None, w3) \<Rightarrow> (None, print Clean_cache_hint w3)))
   \<and> progress_lines (snd (download_tesscuts E_ok (PList [PStr ''1'', PStr ''2'']) args0 w0))
       = [Working_on 1 2 (PStr ''1''), Working_on 2 2 (PStr ''2'')]"
proof -
  let ?n = "length ([PStr ''1''] @ PStr ''2'' # [])"
  let ?w1 = "snd (run_targets E_ok args0 ?n 0 [PStr ''1''] w0)"
  have "fst (run_targets E_ok args0 ?n 0 [PStr ''1''] w0) = None"
    by (simp add: driver_defs E_ok_def)
  then have h1: "run_targets E_ok args0 ?n 0 [PStr ''1''] w0 = (None, ?w1)"
    by (metis prod.collapse)
  have h2: "fst (download_tesscuts E_ok (PList [PStr ''1'', PStr ''2'']) args0 w0) = None"
    by (simp add: driver_defs E_ok_def)
  have p: "progress_lines w0 = []" by (simp add: progress_lines_def w0_def)
  note th1 = progress_line_for_each_target_of_a_collection[where E = E_ok and a = args0
      and pre = "[PStr ''1'']" and TIC = "PStr ''2''" and post = "[]" and w = w0 and ?w1.0 = ?w1,
      THEN conjunct1, THEN mp, OF h1]
  note th2 = progress_line_for_each_target_of_a_collection[where E = E_ok and a = args0
      and l = "[PStr ''1'', PStr ''2'']" and w = w0,
      THEN conjunct2, THEN conjunct1, THEN mp, OF h2]
  from th2 p have b: "progress_lines (snd (download_tesscuts E_ok (PList [PStr ''1'', PStr ''2'']) args0 w0))
       = [Working_on 1 2 (PStr ''1''), Working_on 2 2 (PStr ''2'')]"
    by (simp add: upt_conv_Cons del: upt_Suc)
  from th1 b show ?thesis by (intro conjI)
qed

text \<open>
  The run of claim C9 on the code: \<^verbatim>\<open>download_tesscuts('1')\<close> completes and has printed
  no progress line, in particular not \<^verbatim>\<open>Working on 1/1, TIC = 1\<close>.
\<close>

theorem single_string_prints_no_progress_line:
  "fst (download_tesscuts E_ok (PStr ''1'') args0 w0) = None
   \<and> progress_lines (snd (download_tesscuts E_ok (PStr ''1'') args0 w0)) = []
   \<and> Working_on 1 1 (PStr ''1'') \<notin> set (log (snd (download_tesscuts E_ok (PStr ''1'') args0 w0)))"
  by (simp add: driver_defs E_ok_def progress_lines_def)

section \<open>Caps below one\<close>

text \<open>
  Claim C10: with \<open>max_tries_MASTquery < 1\<close> the target is skipped and the archive is
  never searched; with \<open>max_tries < 1\<close> the target is skipped after the check for
  existing files and no download is ever requested. Each loop tests its cap before the
  first attempt.

  The first part is stated on the whole call for arguments that pass the type checks, the
  second on lines 97 to 155 once the check for existing files has left rows to download;
  the third part says that the whole call requests no download, whatever path it takes.
\<close>

theorem nonpositive_cap_skips_phase:
  "(max_tries_MASTquery a < 1 \<and> check_args TIC a w = Inr (t, d, w1) \<longrightarrow>
      download_tesscuts_single E TIC a w
        = (Inr Query_retries_exceeded, print (Query_skipped t (max_tries_MASTquery a)) w1)
      \<and> n_search (snd (download_tesscuts_single E TIC a w)) = n_search w)
   \<and> (max_tries a < 1 \<and>
       skip_downloaded t sectors (map (\<lambda>s. joinpath d (fits_name t s)) sectors) rows v = (Some rows1, w2) \<longrightarrow>
      download_and_save E t d a sectors rows v
        = (Download_retries_exceeded, print (Download_skipped t (max_tries a)) w2)
      \<and> n_fetch (snd (download_and_save E t d a sectors rows v)) = n_fetch v)
   \<and> (max_tries a < 1 \<longrightarrow>
      n_fetch (snd (download_tesscuts_single E TIC a w)) = n_fetch w)"
proof (intro conjI impI)
  assume h: "max_tries_MASTquery a < 1 \<and> check_args TIC a w = Inr (t, d, w1)"
  then show "download_tesscuts_single E TIC a w
        = (Inr Query_retries_exceeded, print (Query_skipped t (max_tries_MASTquery a)) w1)"
    by (simp add: download_tesscuts_single_def query_loop_no_tries)
  with check_args_frame[of TIC a w t d w1] h
  show "n_search (snd (download_tesscuts_single E TIC a w)) = n_search w"
    by simp
next
  assume h: "max_tries a < 1 \<and>
       skip_downloaded t sectors (map (\<lambda>s. joinpath d (fits_name t s)) sectors) rows v = (Some rows1, w2)"
  then show "download_and_save E t d a sectors rows v
        = (Download_retries_exceeded, print (Download_skipped t (max_tries a)) w2)"
    by (simp add: download_and_save_def fetch_loop_no_tries)
  moreover from h skip_downloaded_frame[of t sectors "map (\<lambda>s. joinpath d (fits_name t s)) sectors" rows v "Some rows1" w2]
  have "n_fetch w2 = n_fetch v" by simp
  ultimately show "n_fetch (snd (download_and_save E t d a sectors rows v)) = n_fetch v"
    by simp
next
  assume cap: "max_tries a < 1"
  show "n_fetch (snd (download_tesscuts_single E TIC a w)) = n_fetch w"
  proof (cases "check_args TIC a w")
    case (Inl e)
    then show ?thesis by (simp add: download_tesscuts_single_def)
  next
    case (Inr x)
    obtain t' d' w1' where x: "x = (t', d', w1')" by (cases x)
    obtain r w2' where q: "query_loop E t' (max_tries_MASTquery a) 1 w1' = (r, w2')"
      by (cases "query_loop E t' (max_tries_MASTquery a) 1 w1'")
    from check_args_frame[of TIC a w t' d' w1'] Inr x have "n_fetch w1' = n_fetch w" by simp
    moreover from query_loop_frame[OF q] have "n_fetch w2' = n_fetch w1'" by simp
    ultimately show ?thesis
      using Inr x q resolve_and_run_no_tries[OF cap, of E t' d' _ w2']
      by (cases r) (simp_all add: download_tesscuts_single_def)
  qed
qed

theorem nonpositive_cap_skips_phase_witness:
  "fst (download_tesscuts_single E_unit2 (PStr ''1'') args_nocap w0) = Inr Query_retries_exceeded
   \<and> n_search (snd (download_tesscuts_single E_unit2 (PStr ''1'') args_nocap w0)) = 0
   \<and> fst (download_and_save E_unit2 ''1'' ''out'' args_nocap [''1'', ''2'', ''3''] rows3 w0)
       = Download_retries_exceeded
   \<and> n_fetch (snd (download_and_save E_unit2 ''1'' ''out'' args_nocap [''1'', ''2'', ''3''] rows3 w0)) = 0
   \<and> n_fetch (snd (download_tesscuts_single E_unit2 (PStr ''1'') args_nocap w0)) = 0"
proof -
  have h1: "max_tries_MASTquery args_nocap < 1 \<and> check_args (PStr ''1'') args_nocap w0 = Inr (''1'', ''out'', w0)"
    by (simp add: args_nocap_def check_args_def path_exists_def scenario_defs)
  have h2: "max_tries args_nocap < 1 \<and>
       skip_downloaded ''1'' [''1'', ''2'', ''3''] (map (\<lambda>s. joinpath ''out'' (fits_name ''1'' s)) [''1'', ''2'', ''3'']) rows3 w0
         = (Some rows3, w0)"
    by (simp add: args_nocap_def skip_downloaded_def path_exists_def joinpath_def fits_name_def scenario_defs)
  have h3: "n_search w0 = 0 \<and> n_fetch w0 = 0" by (simp add: w0_def)
  show ?thesis
    using nonpositive_cap_skips_phase[where a = args_nocap and TIC = "PStr ''1''" and w = w0
        and t = "''1''" and d = "''out''" and ?w1.0 = w0 and E = E_unit2
        and sectors = "[''1'', ''2'', ''3'']" and rows = rows3 and v = w0 and ?rows1.0 = rows3
        and ?w2.0 = w0] h1 h2 h3
    by simp
qed

end
